theory Spec2Isabelle
  imports Complex_Main "HOL-Library.AList"
begin

section \<open>Data model (app/db/models.py)\<close>

text \<open>
  The relational store is a record of tables, each table a list of rows in table
  order. Python integers are \<open>int\<close>; the \<open>Float\<close> columns (prices, percentages) are
  modelled by exact reals, so rounding of binary floating point is not part of the model.
  Timestamps are seconds as \<open>int\<close>. The users table and the relation from an order to
  its buyer's chat id are not modelled: a message is addressed to \<open>buyer_id\<close>.
\<close>

datatype order_status = PENDING | CONFIRMED | PAID | SHIPPED | DELIVERED | CANCELLED

record discount_tier =
  tier_group_size :: int
  tier_discount_percentage :: real

record product =
  p_id :: int
  price :: real
  min_group_size :: int
  discount_percentage :: real
  discount_tiers :: "discount_tier list"

record group_buy =
  g_id :: int
  g_product_id :: int
  current_count :: int
  target_count :: int
  is_active :: bool
  g_updated_at :: int

record order =
  o_id :: int
  buyer_id :: int
  group_buy_id :: int
  quantity :: int
  unit_price :: real
  discount_price :: "real option"
  deposit_amount :: real
  status :: order_status
  created_at :: int

text \<open>The messages handed to \<open>bale_client.send_message\<close>, by the place that sends them.\<close>

datatype notification =
    Msg_join_ack int real int int
  | Msg_group_complete int int real real
  | Msg_joined int int int
  | Msg_rearranged_complete int real real
  | Msg_rearranged_active int int int
  | Msg_expired int

record db =
  products :: "product list"
  group_buys :: "group_buy list"
  orders :: "order list"
  outbox :: "notification list"

text \<open>
  A dereference of \<open>None\<close> raises \<open>AttributeError\<close>, an integer division by zero
  \<open>ZeroDivisionError\<close>. An operation that raises returns the exception alone.
\<close>

datatype error = AttributeError | ZeroDivisionError

section \<open>Store operations (app/db/crud.py)\<close>

text \<open>An autoincrement primary key: one more than the largest key of the table.\<close>

definition next_id :: "int list \<Rightarrow> int" where
  "next_id ids = fold max ids 0 + 1"

definition get_product :: "db \<Rightarrow> int \<Rightarrow> product option" where
  "get_product d product_id = find (\<lambda>p. p_id p = product_id) (products d)"

definition get_group_buy :: "db \<Rightarrow> int \<Rightarrow> group_buy option" where
  "get_group_buy d group_id = find (\<lambda>g. g_id g = group_id) (group_buys d)"

definition get_active_group_buy :: "db \<Rightarrow> int \<Rightarrow> group_buy option" where
  "get_active_group_buy d product_id =
     find (\<lambda>g. g_product_id g = product_id \<and> is_active g) (group_buys d)"

definition create_group_buy :: "db \<Rightarrow> int \<Rightarrow> int \<Rightarrow> int \<Rightarrow> int \<Rightarrow> bool \<Rightarrow> group_buy \<times> db" where
  "create_group_buy d now product_id target cur active =
     (let db_group = \<lparr> g_id = next_id (map g_id (group_buys d)), g_product_id = product_id,
                        current_count = cur, target_count = target, is_active = active,
                        g_updated_at = now \<rparr>
      in (db_group, d\<lparr> group_buys := group_buys d @ [db_group] \<rparr>))"

definition get_or_create_active_group_buy :: "db \<Rightarrow> int \<Rightarrow> int \<Rightarrow> error + (group_buy \<times> db)" where
  "get_or_create_active_group_buy d now product_id =
     (case get_active_group_buy d product_id of
        Some group_buy \<Rightarrow> Inr (group_buy, d)
      | None \<Rightarrow>
          (case get_product d product_id of
             None \<Rightarrow> Inl AttributeError
           | Some product \<Rightarrow>
               Inr (create_group_buy d now product_id (min_group_size product) 0 True)))"

definition get_incomplete_groups :: "db \<Rightarrow> group_buy list" where
  "get_incomplete_groups d =
     filter (\<lambda>g. is_active g \<and> current_count g < target_count g) (group_buys d)"

definition get_expired_groups :: "db \<Rightarrow> int \<Rightarrow> group_buy list" where
  "get_expired_groups d threshold_date =
     filter (\<lambda>g. is_active g \<and> g_updated_at g < threshold_date
                \<and> current_count g < target_count g) (group_buys d)"

definition get_order :: "db \<Rightarrow> int \<Rightarrow> order option" where
  "get_order d order_id = find (\<lambda>r. o_id r = order_id) (orders d)"

definition get_orders_by_group :: "db \<Rightarrow> int \<Rightarrow> order list" where
  "get_orders_by_group d group_id = filter (\<lambda>r. group_buy_id r = group_id) (orders d)"

definition create_order :: "db \<Rightarrow> int \<Rightarrow> int \<Rightarrow> int \<Rightarrow> int \<Rightarrow> real \<Rightarrow> real \<Rightarrow> order \<times> db" where
  "create_order d now buyer group_id qty uprice deposit =
     (let db_order = \<lparr> o_id = next_id (map o_id (orders d)), buyer_id = buyer,
                        group_buy_id = group_id, quantity = qty, unit_price = uprice,
                        discount_price = None, deposit_amount = deposit, status = PENDING,
                        created_at = now \<rparr>
      in (db_order, d\<lparr> orders := orders d @ [db_order] \<rparr>))"

text \<open>
  An attribute assignment on a mapped object changes the row with that primary key;
  a change of a group row also stamps \<open>updated_at\<close> (\<open>onupdate\<close>).
\<close>

definition modify_order :: "int \<Rightarrow> (order \<Rightarrow> order) \<Rightarrow> db \<Rightarrow> db" where
  "modify_order order_id f d =
     d\<lparr> orders := map (\<lambda>r. if o_id r = order_id then f r else r) (orders d) \<rparr>"

definition modify_group :: "int \<Rightarrow> int \<Rightarrow> (group_buy \<Rightarrow> group_buy) \<Rightarrow> db \<Rightarrow> db" where
  "modify_group now group_id f d =
     d\<lparr> group_buys := map (\<lambda>g. if g_id g = group_id then (f g)\<lparr> g_updated_at := now \<rparr> else g)
                          (group_buys d) \<rparr>"

definition send_message :: "notification \<Rightarrow> db \<Rightarrow> db" where
  "send_message m d = d\<lparr> outbox := outbox d @ [m] \<rparr>"

section \<open>Discount resolution (app/services/group_manager.py)\<close>

text \<open>\<open>list.sort(key=..., reverse=True)\<close>: stable, descending.\<close>

definition sort_key_reverse :: "('a \<Rightarrow> 'k::linorder) \<Rightarrow> 'a list \<Rightarrow> 'a list" where
  "sort_key_reverse f xs = rev (sort_key f (rev xs))"

definition get_discount_percentage :: "product \<Rightarrow> int \<Rightarrow> real" where
  "get_discount_percentage product group_size =
     (let applicable_tiers =
            filter (\<lambda>tier. tier_group_size tier \<le> group_size) (discount_tiers product)
      in if discount_tiers product \<noteq> [] \<and> applicable_tiers \<noteq> []
         then tier_discount_percentage (hd (sort_key_reverse tier_discount_percentage applicable_tiers))
         else if group_size \<ge> min_group_size product then discount_percentage product
         else 0)"

section \<open>Joining a group buy\<close>

datatype join_result = Join_group int int int

text \<open>
  The \<open>join_group:\<close> branch of \<open>process_bale_update\<close> (app/services/bale.py), for the
  user row \<open>buyer\<close> and the parsed product id.
\<close>

definition join_group :: "db \<Rightarrow> int \<Rightarrow> int \<Rightarrow> int \<Rightarrow> error + (join_result \<times> db)" where
  "join_group d now buyer product_id =
     (case get_or_create_active_group_buy d now product_id of
        Inl e \<Rightarrow> Inl e
      | Inr (group_buy, d1) \<Rightarrow>
          (case get_product d1 product_id of
             None \<Rightarrow> Inl AttributeError
           | Some product \<Rightarrow>
               (let deposit = price product * 0.1;
                    (order, d2) = create_order d1 now buyer (g_id group_buy) 1 (price product) deposit;
                    d3 = send_message (Msg_join_ack buyer deposit (current_count group_buy + 1)
                                         (target_count group_buy)) d2
                in Inr (Join_group product_id (g_id group_buy) (o_id order), d3))))"

datatype order_result =
    Order_not_found
  | Group_buy_completed int real
  | Added_to_group_buy int int int

definition finalize_order :: "int \<Rightarrow> real \<Rightarrow> order \<Rightarrow> db \<Rightarrow> db" where
  "finalize_order cnt discount ord d =
     (let d1 = modify_order (o_id ord)
                 (\<lambda>r. r\<lparr> discount_price := Some (unit_price r * (1 - discount / 100)),
                         status := CONFIRMED \<rparr>) d
      in send_message (Msg_group_complete (buyer_id ord) cnt discount
                         (unit_price ord * (1 - discount / 100))) d1)"

definition process_new_order :: "db \<Rightarrow> int \<Rightarrow> int \<Rightarrow> error + (order_result \<times> db)" where
  "process_new_order d now order_id =
     (case get_order d order_id of
        None \<Rightarrow> Inr (Order_not_found, d)
      | Some ord \<Rightarrow>
          (case get_group_buy d (group_buy_id ord) of
             None \<Rightarrow> Inl AttributeError
           | Some group_buy \<Rightarrow>
               (let product = get_product d (g_product_id group_buy);
                    cnt = current_count group_buy + 1;
                    d1 = modify_group now (g_id group_buy) (\<lambda>g. g\<lparr> current_count := cnt \<rparr>) d
                in if cnt \<ge> target_count group_buy then
                     (case product of
                        None \<Rightarrow> Inl AttributeError
                      | Some p \<Rightarrow>
                          (let d2 = modify_group now (g_id group_buy) (\<lambda>g. g\<lparr> is_active := False \<rparr>) d1;
                               discount = get_discount_percentage p cnt;
                               d3 = fold (finalize_order cnt discount)
                                      (get_orders_by_group d2 (g_id group_buy)) d2
                           in Inr (Group_buy_completed (g_id group_buy) discount, d3)))
                   else
                     (case product of
                        None \<Rightarrow> Inl AttributeError
                      | Some p \<Rightarrow>
                          Inr (Added_to_group_buy (g_id group_buy) cnt (target_count group_buy),
                               send_message (Msg_joined (buyer_id ord) cnt (target_count group_buy)) d1)))))"

text \<open>
  A join carried through: the order is created by \<open>join_group\<close> and then processed
  by \<open>process_new_order\<close> (``called when a user joins a group buy and pays the deposit'').
\<close>

definition join :: "db \<Rightarrow> int \<Rightarrow> int \<Rightarrow> int \<Rightarrow> error + (order_result \<times> db)" where
  "join d now buyer product_id =
     (case join_group d now buyer product_id of
        Inl e \<Rightarrow> Inl e
      | Inr (Join_group pid gid oid, d1) \<Rightarrow> process_new_order d1 now oid)"

section \<open>Rearrangement of incomplete groups\<close>

datatype rearrangement =
    New_group int int int real
  | New_active_group int int int int

datatype rearrange_result = No_incomplete_groups | Rearrangements "rearrangement list"

text \<open>The dictionary \<open>product_groups\<close>, in insertion order.\<close>

definition product_groups :: "group_buy list \<Rightarrow> (int \<times> group_buy list) list" where
  "product_groups incomplete_groups =
     fold (\<lambda>g pg. AList.map_default (g_product_id g) [g] (\<lambda>gs. gs @ [g]) pg) incomplete_groups []"

definition collect_orders :: "db \<Rightarrow> group_buy list \<Rightarrow> order list" where
  "collect_orders d groups =
     sort_key created_at (concat (map (\<lambda>g. get_orders_by_group d (g_id g)) groups))"

definition confirm_order :: "int \<Rightarrow> real \<Rightarrow> order \<Rightarrow> db \<Rightarrow> db" where
  "confirm_order new_group_id discount ord d =
     (let d1 = modify_order (o_id ord)
                 (\<lambda>r. r\<lparr> group_buy_id := new_group_id, status := CONFIRMED,
                         discount_price := Some (unit_price r * (1 - discount / 100)) \<rparr>) d
      in send_message (Msg_rearranged_complete (buyer_id ord) discount
                         (unit_price ord * (1 - discount / 100))) d1)"

text \<open>One pass of the loop \<open>for i in range(complete_groups_possible)\<close>.\<close>

definition form_complete_group ::
  "int \<Rightarrow> product \<Rightarrow> int \<Rightarrow> order list \<Rightarrow> nat \<Rightarrow> db \<times> rearrangement list \<Rightarrow> db \<times> rearrangement list" where
  "form_complete_group now product product_id all_orders i s =
     (case s of (d, results) \<Rightarrow>
        (let (new_group, d1) = create_group_buy d now product_id (min_group_size product)
                                 (min_group_size product) False;
             start_idx = int i * min_group_size product;
             group_orders = take (nat (min_group_size product)) (drop (nat start_idx) all_orders);
             discount = get_discount_percentage product (min_group_size product);
             d2 = fold (confirm_order (g_id new_group) discount) group_orders d1
         in (d2, results @ [New_group product_id (g_id new_group) (int (length group_orders)) discount])))"

definition move_order :: "int \<Rightarrow> int \<Rightarrow> int \<Rightarrow> order \<Rightarrow> db \<Rightarrow> db" where
  "move_order new_group_id remaining_count n ord d =
     (let d1 = modify_order (o_id ord) (\<lambda>r. r\<lparr> group_buy_id := new_group_id \<rparr>) d
      in send_message (Msg_rearranged_active (buyer_id ord) remaining_count n) d1)"

definition form_remaining_group ::
  "int \<Rightarrow> product \<Rightarrow> int \<Rightarrow> order list \<Rightarrow> int \<Rightarrow> int \<Rightarrow> db \<times> rearrangement list \<Rightarrow> db \<times> rearrangement list" where
  "form_remaining_group now product product_id all_orders complete_groups_possible remaining_count s =
     (case s of (d, results) \<Rightarrow>
        (let (new_active_group, d1) = create_group_buy d now product_id (min_group_size product)
                                        remaining_count True;
             remaining_orders = drop (nat (complete_groups_possible * min_group_size product)) all_orders;
             d2 = fold (move_order (g_id new_active_group) remaining_count (min_group_size product))
                    remaining_orders d1
         in (d2, results @ [New_active_group product_id (g_id new_active_group) remaining_count
                              (min_group_size product)])))"

definition close_groups :: "int \<Rightarrow> group_buy list \<Rightarrow> db \<Rightarrow> db" where
  "close_groups now groups d =
     fold (\<lambda>g. modify_group now (g_id g) (\<lambda>g'. g'\<lparr> is_active := False \<rparr>)) groups d"

text \<open>The body of the loop over \<open>product_groups.items()\<close>.\<close>

definition rearrange_product ::
  "int \<Rightarrow> int \<times> group_buy list \<Rightarrow> db \<times> rearrangement list \<Rightarrow> error + (db \<times> rearrangement list)" where
  "rearrange_product now entry s =
     (case entry of (product_id, groups) \<Rightarrow>
      case s of (d, results) \<Rightarrow>
        (case get_product d product_id of
           None \<Rightarrow> Inl AttributeError
         | Some product \<Rightarrow>
             (let all_orders = collect_orders d groups;
                  total_buyers = int (length all_orders)
              in if min_group_size product = 0 then Inl ZeroDivisionError
                 else
                   (let complete_groups_possible = total_buyers div min_group_size product
                    in if complete_groups_possible > 0 then
                         (let s1 = fold (form_complete_group now product product_id all_orders)
                                     [0 ..< nat complete_groups_possible] (d, results);
                              remaining_count = total_buyers mod min_group_size product;
                              s2 = (if remaining_count > 0
                                    then form_remaining_group now product product_id all_orders
                                           complete_groups_possible remaining_count s1
                                    else s1)
                          in Inr (close_groups now groups (fst s2), snd s2))
                       else Inr (d, results)))))"

fun fold_err :: "('a \<Rightarrow> 's \<Rightarrow> error + 's) \<Rightarrow> 'a list \<Rightarrow> 's \<Rightarrow> error + 's" where
  "fold_err f [] s = Inr s"
| "fold_err f (x # xs) s = (case f x s of Inl e \<Rightarrow> Inl e | Inr s' \<Rightarrow> fold_err f xs s')"

definition rearrange_incomplete_groups :: "db \<Rightarrow> int \<Rightarrow> error + (rearrange_result \<times> db)" where
  "rearrange_incomplete_groups d now =
     (let incomplete_groups = get_incomplete_groups d
      in if incomplete_groups = [] then Inr (No_incomplete_groups, d)
         else (case fold_err (rearrange_product now) (product_groups incomplete_groups) (d, []) of
                 Inl e \<Rightarrow> Inl e
               | Inr (d', results) \<Rightarrow> Inr (Rearrangements results, d')))"

section \<open>Expiration\<close>

datatype sweep_result = No_expired_groups | Expired_groups int rearrange_result

definition cancel_order :: "order \<Rightarrow> db \<Rightarrow> db" where
  "cancel_order ord d =
     modify_order (o_id ord) (\<lambda>r. r\<lparr> status := CANCELLED \<rparr>)
       (send_message (Msg_expired (buyer_id ord)) d)"

text \<open>
  One pass of the loop over the expired groups. The message reads \<open>group.product.name\<close>,
  which raises for a group with orders whose product row is missing.
\<close>

definition expire_group :: "int \<Rightarrow> group_buy \<Rightarrow> db \<Rightarrow> error + db" where
  "expire_group now g d =
     (let ords = get_orders_by_group d (g_id g)
      in if ords \<noteq> [] \<and> get_product d (g_product_id g) = None then Inl AttributeError
         else Inr (modify_group now (g_id g) (\<lambda>g'. g'\<lparr> is_active := False \<rparr>)
                     (fold cancel_order ords d)))"

definition expiration_days :: int where
  "expiration_days = 7"

definition check_expired_groups :: "db \<Rightarrow> int \<Rightarrow> error + (sweep_result \<times> db)" where
  "check_expired_groups d now =
     (let expiration_threshold = now - expiration_days * 86400;
          expired_groups = get_expired_groups d expiration_threshold
      in if expired_groups = [] then Inr (No_expired_groups, d)
         else (case fold_err (expire_group now) expired_groups d of
                 Inl e \<Rightarrow> Inl e
               | Inr d1 \<Rightarrow>
                   (case rearrange_incomplete_groups d1 now of
                      Inl e \<Rightarrow> Inl e
                    | Inr (rearrangement_result, d2) \<Rightarrow>
                        Inr (Expired_groups (int (length expired_groups)) rearrangement_result, d2))))"

section \<open>Sequences of operations\<close>

datatype operation =
    Get_or_create int
  | Click_join int int
  | Pay_deposit int
  | Join int int
  | Rearrange
  | Sweep

definition step :: "int \<times> operation \<Rightarrow> db \<Rightarrow> error + db" where
  "step tick d =
     (case tick of (now, operation) \<Rightarrow>
        (case operation of
           Get_or_create product_id \<Rightarrow> map_sum id snd (get_or_create_active_group_buy d now product_id)
         | Click_join buyer product_id \<Rightarrow> map_sum id snd (join_group d now buyer product_id)
         | Pay_deposit order_id \<Rightarrow> map_sum id snd (process_new_order d now order_id)
         | Join buyer product_id \<Rightarrow> map_sum id snd (join d now buyer product_id)
         | Rearrange \<Rightarrow> map_sum id snd (rearrange_incomplete_groups d now)
         | Sweep \<Rightarrow> map_sum id snd (check_expired_groups d now)))"

definition run :: "(int \<times> operation) list \<Rightarrow> db \<Rightarrow> error + db" where
  "run ticks d = fold_err step ticks d"

section \<open>The webhook endpoint (app/main.py)\<close>

text \<open>
  \<open>bale_webhook\<close> answers 200 with the handler's result; any exception of the handler
  is caught and raised again as \<open>HTTPException(status_code=500)\<close>. The product routes
  (app/api/products.py) answer 404 when \<open>get_product\<close> finds no row.
\<close>

definition bale_webhook_status :: "error + 'a \<Rightarrow> nat" where
  "bale_webhook_status handled = (case handled of Inl e \<Rightarrow> 500 | Inr r \<Rightarrow> 200)"

definition read_product_status :: "db \<Rightarrow> int \<Rightarrow> nat" where
  "read_product_status d product_id =
     (case get_product d product_id of None \<Rightarrow> 404 | Some db_product \<Rightarrow> 200)"

section \<open>Example data\<close>

definition example_product :: product where
  "example_product =
     \<lparr> p_id = 1, price = 100, min_group_size = 2, discount_percentage = 20,
       discount_tiers = [\<lparr> tier_group_size = 2, tier_discount_percentage = 5 \<rparr>,
                         \<lparr> tier_group_size = 3, tier_discount_percentage = 10 \<rparr>] \<rparr>"

definition empty_db :: db where
  "empty_db = \<lparr> products = [example_product], group_buys = [], orders = [], outbox = [] \<rparr>"

text \<open>
  One group of the example product with one processed order and a second order that has
  been created but not yet processed.
\<close>

definition two_clicks_db :: db where
  "two_clicks_db =
     \<lparr> products = [example_product],
       group_buys = [\<lparr> g_id = 1, g_product_id = 1, current_count = 1, target_count = 2,
                       is_active = True, g_updated_at = 0 \<rparr>],
       orders = [\<lparr> o_id = 1, buyer_id = 7, group_buy_id = 1, quantity = 1, unit_price = 100,
                   discount_price = None, deposit_amount = 10, status = PENDING, created_at = 0 \<rparr>,
                 \<lparr> o_id = 2, buyer_id = 8, group_buy_id = 1, quantity = 1, unit_price = 100,
                   discount_price = None, deposit_amount = 10, status = PENDING, created_at = 1 \<rparr>],
       outbox = [] \<rparr>"

text \<open>
  A product with minimum group size 4 and ten pending orders spread over four stale
  groups; the orders were not created in the order of their keys.
\<close>

definition bulk_product :: product where
  "bulk_product =
     \<lparr> p_id = 2, price = 50, min_group_size = 4, discount_percentage = 20, discount_tiers = [] \<rparr>"

definition pending_order :: "int \<Rightarrow> int \<Rightarrow> int \<Rightarrow> order" where
  "pending_order i g t =
     \<lparr> o_id = i, buyer_id = 100 + i, group_buy_id = g, quantity = 1, unit_price = 50,
       discount_price = None, deposit_amount = 5, status = PENDING, created_at = t \<rparr>"

definition stale_group :: "int \<Rightarrow> int \<Rightarrow> group_buy" where
  "stale_group i c =
     \<lparr> g_id = i, g_product_id = 2, current_count = c, target_count = 4, is_active = True,
       g_updated_at = 0 \<rparr>"

definition ten_orders_db :: db where
  "ten_orders_db =
     \<lparr> products = [bulk_product],
       group_buys = [stale_group 1 3, stale_group 2 3, stale_group 3 3, stale_group 4 1],
       orders = [pending_order 1 1 5, pending_order 2 1 1, pending_order 3 1 9,
                 pending_order 4 2 2, pending_order 5 2 8, pending_order 6 2 3,
                 pending_order 7 3 7, pending_order 8 3 4, pending_order 9 3 10,
                 pending_order 10 4 6],
       outbox = [] \<rparr>"

text \<open>One active group of the example product holding a single order.\<close>

definition one_pending_db :: db where
  "one_pending_db =
     \<lparr> products = [example_product],
       group_buys = [\<lparr> g_id = 1, g_product_id = 1, current_count = 1, target_count = 2,
                       is_active = True, g_updated_at = 0 \<rparr>],
       orders = [\<lparr> o_id = 1, buyer_id = 7, group_buy_id = 1, quantity = 1, unit_price = 100,
                   discount_price = None, deposit_amount = 10, status = PENDING, created_at = 0 \<rparr>],
       outbox = [] \<rparr>"

text \<open>
  A day in the life of the example product: a join, a second buyer who clicks and pays
  later, a third join, a sweep a fortnight on, a rearrangement and a lookup.
\<close>

definition example_ticks :: "(int \<times> operation) list" where
  "example_ticks =
     [(0, Join 7 1), (1, Click_join 8 1), (2, Pay_deposit 2), (3, Join 9 1),
      (1300000, Sweep), (1300001, Rearrange), (1300002, Get_or_create 1)]"


text \<open>
  The ten orders of above together with two stale groups of the example product holding
  one order each, listed between the others, and an inactive group with one order.
\<close>

definition small_group :: "int \<Rightarrow> int \<Rightarrow> group_buy" where
  "small_group i c =
     \<lparr> g_id = i, g_product_id = 1, current_count = c, target_count = 2, is_active = True,
       g_updated_at = 0 \<rparr>"

definition two_products_db :: db where
  "two_products_db =
     \<lparr> products = [example_product, bulk_product],
       group_buys = [stale_group 1 3, small_group 5 1, stale_group 2 3, stale_group 3 3,
                     small_group 6 1, stale_group 4 1,
                     \<lparr> g_id = 7, g_product_id = 2, current_count = 4, target_count = 4,
                       is_active = False, g_updated_at = 0 \<rparr>],
       orders = [pending_order 1 1 5, pending_order 2 1 1, pending_order 3 1 9,
                 pending_order 4 2 2, pending_order 5 2 8, pending_order 6 2 3,
                 pending_order 7 3 7, pending_order 8 3 4, pending_order 9 3 10,
                 pending_order 10 4 6, pending_order 11 5 12, pending_order 12 6 11,
                 pending_order 13 7 0],
       outbox = [] \<rparr>"

section \<open>Predicates used in the statements\<close>

text \<open>The store after \<open>process_new_order\<close> has completed a group.\<close>

definition completed_store :: "db \<Rightarrow> int \<Rightarrow> group_buy \<Rightarrow> real \<Rightarrow> db \<Rightarrow> bool" where
  "completed_store d now g disc d' \<longleftrightarrow>
     products d' = products d \<and>
     group_buys d' =
       map (\<lambda>g'. if g_id g' = g_id g
                  then g'\<lparr> current_count := current_count g + 1, is_active := False,
                           g_updated_at := now \<rparr>
                  else g') (group_buys d) \<and>
     orders d' =
       map (\<lambda>r. if group_buy_id r = g_id g
                 then r\<lparr> discount_price := Some (unit_price r * (1 - disc / 100)),
                         status := CONFIRMED \<rparr>
                 else r) (orders d)"

text \<open>The position of the order with key \<open>i\<close> in a list of orders.\<close>

fun order_index :: "int \<Rightarrow> order list \<Rightarrow> nat option" where
  "order_index i [] = None"
| "order_index i (x # xs) = (if o_id x = i then Some 0 else map_option Suc (order_index i xs))"

text \<open>
  What the rearrangement of one product is to produce, in the words of its description:
  with \<open>n\<close> the minimum group size and the collected orders in order of creation,
  \<open>length all div n\<close> complete inactive groups of \<open>n\<close> orders each, confirmed at the
  discount for \<open>n\<close>, and one active group holding the \<open>length all mod n\<close> remaining
  orders, if any, without a discount price.
\<close>

definition spec_new_groups :: "int \<Rightarrow> int \<Rightarrow> nat \<Rightarrow> nat \<Rightarrow> int \<Rightarrow> group_buy list" where
  "spec_new_groups now product_id n total_orders base =
     map (\<lambda>i. \<lparr> g_id = base + int i, g_product_id = product_id, current_count = int n,
                 target_count = int n, is_active = False, g_updated_at = now \<rparr>) [0 ..< total_orders div n]
     @ (if total_orders mod n > 0
        then [\<lparr> g_id = base + int (total_orders div n), g_product_id = product_id,
                 current_count = int (total_orders mod n), target_count = int n, is_active = True,
                 g_updated_at = now \<rparr>]
        else [])"

definition spec_order_row :: "order list \<Rightarrow> nat \<Rightarrow> int \<Rightarrow> real \<Rightarrow> order \<Rightarrow> order" where
  "spec_order_row all_orders n base discount r =
     (case order_index (o_id r) all_orders of
        None \<Rightarrow> r
      | Some j \<Rightarrow>
          if j < (length all_orders div n) * n
          then r\<lparr> group_buy_id := base + int (j div n), status := CONFIRMED,
                  discount_price := Some (unit_price r * (1 - discount / 100)) \<rparr>
          else r\<lparr> group_buy_id := base + int (length all_orders div n) \<rparr>)"

definition spec_results :: "int \<Rightarrow> nat \<Rightarrow> nat \<Rightarrow> int \<Rightarrow> real \<Rightarrow> rearrangement list" where
  "spec_results product_id n total_orders base discount =
     map (\<lambda>i. New_group product_id (base + int i) (int n) discount) [0 ..< total_orders div n]
     @ (if total_orders mod n > 0
        then [New_active_group product_id (base + int (total_orders div n)) (int (total_orders mod n)) (int n)]
        else [])"

text \<open>At most one active group per product: the active groups have distinct products.\<close>

definition one_active_per_product :: "db \<Rightarrow> bool" where
  "one_active_per_product d \<longleftrightarrow> distinct (map g_product_id (filter is_active (group_buys d)))"

text \<open>
  The stores that whole joins, rearrangements and sweeps produce from an empty one:
  primary keys are unique, every order points at a group, each product has at most one
  active group, an active group was created for an existing product with its minimum
  group size as target and counts exactly the orders that point at it, none of them
  cancelled or priced yet, and an order with a discount price belongs to a completed
  group.
\<close>

definition consistent_store :: "db \<Rightarrow> bool" where
  "consistent_store d \<longleftrightarrow>
     distinct (map o_id (orders d)) \<and> distinct (map g_id (group_buys d))
     \<and> one_active_per_product d
     \<and> (\<forall>r\<in>set (orders d). group_buy_id r \<in> g_id ` set (group_buys d))
     \<and> (\<forall>g\<in>set (group_buys d). is_active g \<longrightarrow>
           (\<exists>p. get_product d (g_product_id g) = Some p \<and> target_count g = min_group_size p)
           \<and> current_count g = int (length (get_orders_by_group d (g_id g)))
           \<and> (\<forall>r\<in>set (get_orders_by_group d (g_id g)).
                 status r \<noteq> CANCELLED \<and> discount_price r = None))
     \<and> (\<forall>r\<in>set (orders d). discount_price r \<noteq> None \<longrightarrow>
           (\<exists>g\<in>set (group_buys d). g_id g = group_buy_id r \<and> \<not> is_active g
              \<and> target_count g \<le> current_count g))"

text \<open>
  The operations that are carried through: a join is one operation, not a click with
  the payment processed some time later.
\<close>

fun whole_operation :: "operation \<Rightarrow> bool" where
  "whole_operation (Click_join buyer product_id) = False"
| "whole_operation (Pay_deposit order_id) = False"
| "whole_operation operation = True"


section \<open>Basic facts about the store\<close>

subsection \<open>Fields of the store after a primitive\<close>

lemma modify_order_fields [simp]:
  "products (modify_order i f d) = products d"
  "group_buys (modify_order i f d) = group_buys d"
  "outbox (modify_order i f d) = outbox d"
  "orders (modify_order i f d) = map (\<lambda>r. if o_id r = i then f r else r) (orders d)"
  by (simp_all add: modify_order_def)

lemma modify_group_fields [simp]:
  "products (modify_group now i f d) = products d"
  "orders (modify_group now i f d) = orders d"
  "outbox (modify_group now i f d) = outbox d"
  "group_buys (modify_group now i f d) =
     map (\<lambda>g. if g_id g = i then (f g)\<lparr> g_updated_at := now \<rparr> else g) (group_buys d)"
  by (simp_all add: modify_group_def)

lemma send_message_fields [simp]:
  "products (send_message m d) = products d"
  "group_buys (send_message m d) = group_buys d"
  "orders (send_message m d) = orders d"
  "outbox (send_message m d) = outbox d @ [m]"
  by (simp_all add: send_message_def)

lemma get_product_cong: "products d' = products d \<Longrightarrow> get_product d' = get_product d"
  by (rule ext) (simp add: get_product_def)

lemma get_product_simps [simp]:
  "get_product (modify_order i f d) = get_product d"
  "get_product (modify_group now i g d) = get_product d"
  "get_product (send_message m d) = get_product d"
  by (simp_all add: get_product_def fun_eq_iff)

subsection \<open>Fresh keys\<close>

lemma fold_max_ge: "(a::int) \<le> fold max xs a"
proof (induction xs arbitrary: a)
  case Nil
  then show ?case by simp
next
  case (Cons y ys)
  have "a \<le> max y a" by simp
  also have "\<dots> \<le> fold max ys (max y a)" by (rule Cons.IH)
  finally show ?case by simp
qed

lemma fold_max_mem: "(x::int) \<in> set xs \<Longrightarrow> x \<le> fold max xs a"
proof (induction xs arbitrary: a)
  case Nil
  then show ?case by simp
next
  case (Cons y ys)
  then show ?case
    using fold_max_ge [of "max y a" ys] by auto
qed

lemma next_id_fresh: "x \<in> set ids \<Longrightarrow> x < next_id ids"
  using fold_max_mem [of x ids 0] by (simp add: next_id_def)

lemma next_id_notin: "next_id ids \<notin> set ids"
  using next_id_fresh [of "next_id ids" ids] by auto

lemma next_id_pos: "0 < next_id ids"
  using fold_max_ge [of 0 ids] by (simp add: next_id_def)

lemma fold_max_append: "fold max (xs @ [x]) a = max x (fold max xs (a::int))"
  by simp

lemma next_id_snoc: "next_id (ids @ [next_id ids]) = next_id ids + 1"
  using fold_max_ge [of 0 ids] by (simp add: next_id_def)

subsection \<open>Lookups\<close>

lemma find_Some_mem: "find P xs = Some x \<Longrightarrow> x \<in> set xs \<and> P x"
  by (induction xs) (auto split: if_splits)

lemma find_None_all: "find P xs = None \<longleftrightarrow> (\<forall>x\<in>set xs. \<not> P x)"
  by (induction xs) auto

lemma find_distinct_key:
  "distinct (map k xs) \<Longrightarrow> x \<in> set xs \<Longrightarrow> find (\<lambda>y. k y = k x) xs = Some x"
  by (induction xs) (auto simp: image_iff)

lemma find_append_fresh:
  "\<forall>y\<in>set xs. \<not> P y \<Longrightarrow> P x \<Longrightarrow> find P (xs @ [x]) = Some x"
  by (induction xs) auto

lemma find_append_old: "find P xs = Some y \<Longrightarrow> find P (xs @ zs) = Some y"
  by (induction xs) (auto split: if_splits)

subsection \<open>A loop that rewrites order rows\<close>

lemma orders_fold_rewrite:
  assumes step: "\<And>x d. orders (stp x d) = map (\<lambda>r. if o_id r = o_id x then f r else r) (orders d)"
    and keep: "\<And>r. o_id (f r) = o_id r"
    and idem: "\<And>r. f (f r) = f r"
  shows "orders (fold stp xs d) = map (\<lambda>r. if o_id r \<in> o_id ` set xs then f r else r) (orders d)"
proof (induction xs arbitrary: d)
  case Nil
  then show ?case by simp
next
  case (Cons x xs)
  have "orders (fold stp (x # xs) d) =
        map (\<lambda>r. if o_id r \<in> o_id ` set xs then f r else r) (orders (stp x d))"
    using Cons.IH [of "stp x d"] by simp
  also have "\<dots> = map (\<lambda>r. if o_id r \<in> o_id ` set (x # xs) then f r else r) (orders d)"
    by (simp add: step keep idem)
  finally show ?case .
qed

lemma fold_keeps_field:
  assumes "\<And>x d. fld (stp x d) = fld d"
  shows "fld (fold stp xs d) = fld d"
  by (induction xs arbitrary: d) (simp_all add: assms)

section \<open>The discount resolver\<close>

lemma sorted_last_Max:
  fixes ys :: "'a::linorder list"
  shows "sorted ys \<Longrightarrow> ys \<noteq> [] \<Longrightarrow> last ys = Max (set ys)"
proof (induction ys)
  case Nil
  then show ?case by simp
next
  case (Cons y ys)
  show ?case
  proof (cases "ys = []")
    case True
    then show ?thesis by simp
  next
    case False
    with Cons have "last ys = Max (set ys)" by simp
    moreover from Cons.prems have "\<forall>z\<in>set ys. y \<le> z" by simp
    then have "y \<le> Max (set ys)" using False by (cases ys) (auto simp: Max_ge_iff)
    ultimately show ?thesis using False by (simp add: max_absorb2)
  qed
qed

lemma hd_sort_key_reverse:
  fixes f :: "'a \<Rightarrow> 'k::linorder"
  assumes "xs \<noteq> []"
  shows "f (hd (sort_key_reverse f xs)) = Max (f ` set xs)"
proof -
  let ?ys = "sort_key f (rev xs)"
  have ne: "?ys \<noteq> []" using assms by (metis length_sort length_rev length_0_conv)
  have "f (hd (rev ?ys)) = f (last ?ys)" using ne by (simp add: hd_rev)
  also have "\<dots> = last (map f ?ys)" using ne by (simp add: last_map)
  also have "\<dots> = Max (set (map f ?ys))"
    using ne by (intro sorted_last_Max) simp_all
  also have "set (map f ?ys) = f ` set xs" by simp
  finally show ?thesis by (simp add: sort_key_reverse_def)
qed

text \<open>
  C1. For every product and every group size, \<open>get_discount_percentage\<close> returns the
  highest percentage among the tiers whose threshold is at most the group size when
  there is such a tier; otherwise the product's default percentage when the group size
  reaches \<open>min_group_size\<close>; otherwise 0. For the tiers (2, 5), (5, 15), (10, 10) and
  group size 10 the result is 15. The function is total and reads nothing but its
  arguments.
\<close>

theorem get_discount_percentage_highest_qualifying:
  "get_discount_percentage product group_size =
     (let qualifying = filter (\<lambda>tier. tier_group_size tier \<le> group_size) (discount_tiers product)
      in if qualifying \<noteq> [] then Max (tier_discount_percentage ` set qualifying)
         else if min_group_size product \<le> group_size then discount_percentage product
         else 0)
   \<and> get_discount_percentage
        (product\<lparr> discount_tiers :=
           [\<lparr> tier_group_size = 2, tier_discount_percentage = 5 \<rparr>,
            \<lparr> tier_group_size = 5, tier_discount_percentage = 15 \<rparr>,
            \<lparr> tier_group_size = 10, tier_discount_percentage = 10 \<rparr>] \<rparr>) 10 = 15"
proof
  let ?q = "filter (\<lambda>tier. tier_group_size tier \<le> group_size) (discount_tiers product)"
  have "?q \<noteq> [] \<Longrightarrow> discount_tiers product \<noteq> []" by auto
  then show "get_discount_percentage product group_size =
     (let qualifying = ?q
      in if qualifying \<noteq> [] then Max (tier_discount_percentage ` set qualifying)
         else if min_group_size product \<le> group_size then discount_percentage product
         else 0)"
    unfolding get_discount_percentage_def Let_def
    using hd_sort_key_reverse [of ?q tier_discount_percentage] by auto
next
  show "get_discount_percentage
        (product\<lparr> discount_tiers :=
           [\<lparr> tier_group_size = 2, tier_discount_percentage = 5 \<rparr>,
            \<lparr> tier_group_size = 5, tier_discount_percentage = 15 \<rparr>,
            \<lparr> tier_group_size = 10, tier_discount_percentage = 10 \<rparr>] \<rparr>) 10 = 15"
    by (simp add: get_discount_percentage_def sort_key_reverse_def)
qed

theorem get_discount_percentage_example:
  "get_discount_percentage
     \<lparr> p_id = 1, price = 100, min_group_size = 3, discount_percentage = 20,
       discount_tiers = [\<lparr> tier_group_size = 2, tier_discount_percentage = 5 \<rparr>,
                         \<lparr> tier_group_size = 5, tier_discount_percentage = 15 \<rparr>,
                         \<lparr> tier_group_size = 10, tier_discount_percentage = 10 \<rparr>] \<rparr> 10 = 15"
  using get_discount_percentage_highest_qualifying
    [of "\<lparr> p_id = 1, price = 100, min_group_size = 3, discount_percentage = 20,
       discount_tiers = [\<lparr> tier_group_size = 2, tier_discount_percentage = 5 \<rparr>,
                         \<lparr> tier_group_size = 5, tier_discount_percentage = 15 \<rparr>,
                         \<lparr> tier_group_size = 10, tier_discount_percentage = 10 \<rparr>] \<rparr>" 10]
  by simp

section \<open>Joining: lookups and closed forms\<close>

lemma find_map_key:
  assumes "distinct (map k xs)" "x \<in> set xs" "\<And>y. k (f y) = k y"
  shows "find (\<lambda>y. k y = k x) (map f xs) = Some (f x)"
  using assms(1,2) by (induction xs) (auto simp: assms(3) image_iff)

lemma get_group_buy_mem:
  "get_group_buy d i = Some g \<Longrightarrow> g \<in> set (group_buys d) \<and> g_id g = i"
  by (auto simp: get_group_buy_def dest: find_Some_mem)

lemma get_order_mem:
  "get_order d i = Some r \<Longrightarrow> r \<in> set (orders d) \<and> o_id r = i"
  by (auto simp: get_order_def dest: find_Some_mem)

lemma finalize_order_fields [simp]:
  "products (finalize_order c disc x d) = products d"
  "group_buys (finalize_order c disc x d) = group_buys d"
  "orders (finalize_order c disc x d) =
     map (\<lambda>r. if o_id r = o_id x
               then r\<lparr> discount_price := Some (unit_price r * (1 - disc / 100)), status := CONFIRMED \<rparr>
               else r) (orders d)"
  by (simp_all add: finalize_order_def)

lemma fold_finalize_fields:
  "products (fold (finalize_order c disc) xs d) = products d"
  "group_buys (fold (finalize_order c disc) xs d) = group_buys d"
  "orders (fold (finalize_order c disc) xs d) =
     map (\<lambda>r. if o_id r \<in> o_id ` set xs
               then r\<lparr> discount_price := Some (unit_price r * (1 - disc / 100)), status := CONFIRMED \<rparr>
               else r) (orders d)"
proof -
  show "products (fold (finalize_order c disc) xs d) = products d"
    by (rule fold_keeps_field) simp
  show "group_buys (fold (finalize_order c disc) xs d) = group_buys d"
    by (rule fold_keeps_field) simp
  show "orders (fold (finalize_order c disc) xs d) =
     map (\<lambda>r. if o_id r \<in> o_id ` set xs
               then r\<lparr> discount_price := Some (unit_price r * (1 - disc / 100)), status := CONFIRMED \<rparr>
               else r) (orders d)"
    by (rule orders_fold_rewrite) simp_all
qed

lemma id_in_group_iff:
  assumes "distinct (map o_id os)" "r \<in> set os"
  shows "o_id r \<in> o_id ` set (filter P os) \<longleftrightarrow> P r"
proof
  assume "o_id r \<in> o_id ` set (filter P os)"
  then obtain r' where r': "r' \<in> set os" "P r'" "o_id r' = o_id r" by auto
  with assms have "r' = r" by (meson distinct_map inj_onD)
  with r' show "P r" by simp
next
  assume "P r"
  with assms(2) show "o_id r \<in> o_id ` set (filter P os)" by auto
qed

lemma process_new_order_complete:
  assumes ord: "get_order d oid = Some ord"
    and grp: "get_group_buy d (group_buy_id ord) = Some g"
    and prod: "get_product d (g_product_id g) = Some p"
    and full: "target_count g \<le> current_count g + 1"
    and dist: "distinct (map o_id (orders d))"
  shows "\<exists>d'. process_new_order d now oid =
            Inr (Group_buy_completed (g_id g) (get_discount_percentage p (current_count g + 1)), d')
          \<and> completed_store d now g (get_discount_percentage p (current_count g + 1)) d'"
proof -
  let ?disc = "get_discount_percentage p (current_count g + 1)"
  let ?d1 = "modify_group now (g_id g) (\<lambda>g'. g'\<lparr> current_count := current_count g + 1 \<rparr>) d"
  let ?d2 = "modify_group now (g_id g) (\<lambda>g'. g'\<lparr> is_active := False \<rparr>) ?d1"
  let ?d3 = "fold (finalize_order (current_count g + 1) ?disc) (get_orders_by_group ?d2 (g_id g)) ?d2"
  have res: "process_new_order d now oid = Inr (Group_buy_completed (g_id g) ?disc, ?d3)"
    using ord grp prod full by (simp add: process_new_order_def Let_def)
  have gs: "group_buys ?d3 =
       map (\<lambda>g'. if g_id g' = g_id g
                  then g'\<lparr> current_count := current_count g + 1, is_active := False,
                           g_updated_at := now \<rparr>
                  else g') (group_buys d)"
    by (simp add: fold_finalize_fields comp_def)
  have "orders ?d3 =
       map (\<lambda>r. if o_id r \<in> o_id ` set (filter (\<lambda>r. group_buy_id r = g_id g) (orders d))
                 then r\<lparr> discount_price := Some (unit_price r * (1 - ?disc / 100)),
                         status := CONFIRMED \<rparr>
                 else r) (orders d)"
    by (simp add: fold_finalize_fields get_orders_by_group_def)
  also have "\<dots> =
       map (\<lambda>r. if group_buy_id r = g_id g
                 then r\<lparr> discount_price := Some (unit_price r * (1 - ?disc / 100)),
                         status := CONFIRMED \<rparr>
                 else r) (orders d)"
    by (rule map_cong [OF refl]) (simp only: id_in_group_iff [OF dist])
  finally have os: "orders ?d3 =
       map (\<lambda>r. if group_buy_id r = g_id g
                 then r\<lparr> discount_price := Some (unit_price r * (1 - ?disc / 100)),
                         status := CONFIRMED \<rparr>
                 else r) (orders d)" .
  have "completed_store d now g ?disc ?d3"
    unfolding completed_store_def using gs os by (simp add: fold_finalize_fields)
  with res show ?thesis by blast
qed

lemma process_new_order_pending:
  assumes ord: "get_order d oid = Some ord"
    and grp: "get_group_buy d (group_buy_id ord) = Some g"
    and prod: "get_product d (g_product_id g) = Some p"
    and notfull: "current_count g + 1 < target_count g"
  shows "process_new_order d now oid =
           Inr (Added_to_group_buy (g_id g) (current_count g + 1) (target_count g),
                send_message (Msg_joined (buyer_id ord) (current_count g + 1) (target_count g))
                  (modify_group now (g_id g) (\<lambda>g'. g'\<lparr> current_count := current_count g + 1 \<rparr>) d))"
  using assms by (simp add: process_new_order_def Let_def)

lemma get_active_group_buy_mem:
  "get_active_group_buy d pid = Some g \<Longrightarrow>
     g \<in> set (group_buys d) \<and> g_product_id g = pid \<and> is_active g"
  by (auto simp: get_active_group_buy_def dest: find_Some_mem)

lemma get_or_create_existing:
  "get_active_group_buy d pid = Some g \<Longrightarrow> get_or_create_active_group_buy d now pid = Inr (g, d)"
  by (simp add: get_or_create_active_group_buy_def)

lemma get_or_create_new:
  "get_active_group_buy d pid = None \<Longrightarrow> get_product d pid = Some p \<Longrightarrow>
     get_or_create_active_group_buy d now pid =
       Inr (\<lparr> g_id = next_id (map g_id (group_buys d)), g_product_id = pid, current_count = 0,
              target_count = min_group_size p, is_active = True, g_updated_at = now \<rparr>,
            d\<lparr> group_buys := group_buys d @
                 [\<lparr> g_id = next_id (map g_id (group_buys d)), g_product_id = pid, current_count = 0,
                    target_count = min_group_size p, is_active = True, g_updated_at = now \<rparr>] \<rparr>)"
  by (simp add: get_or_create_active_group_buy_def create_group_buy_def Let_def)

lemma get_or_create_missing:
  "get_active_group_buy d pid = None \<Longrightarrow> get_product d pid = None \<Longrightarrow>
     get_or_create_active_group_buy d now pid = Inl AttributeError"
  by (simp add: get_or_create_active_group_buy_def)

lemma get_or_create_total:
  assumes "get_product d pid = Some p"
  shows "\<exists>g d1. get_or_create_active_group_buy d now pid = Inr (g, d1)"
proof (cases "get_active_group_buy d pid")
  case None
  from get_or_create_new [OF None assms] show ?thesis by blast
next
  case (Some g)
  from get_or_create_existing [OF Some] show ?thesis by blast
qed

lemma fresh_order_id: "\<forall>y\<in>set (orders d). o_id y \<noteq> next_id (map o_id (orders d))"
  using next_id_fresh [of _ "map o_id (orders d)"] by fastforce

lemma fresh_group_id: "\<forall>y\<in>set (group_buys d). g_id y \<noteq> next_id (map g_id (group_buys d))"
  using next_id_fresh [of _ "map g_id (group_buys d)"] by fastforce

lemma get_or_create_Inr:
  assumes "get_or_create_active_group_buy d now pid = Inr (g, d1)"
  shows "products d1 = products d" "orders d1 = orders d" "outbox d1 = outbox d"
    "g \<in> set (group_buys d1)" "g_product_id g = pid" "is_active g"
    "group_buys d1 = group_buys d \<or>
     (group_buys d1 = group_buys d @ [g] \<and> g_id g = next_id (map g_id (group_buys d))
        \<and> get_active_group_buy d pid = None \<and> current_count g = 0
        \<and> (\<exists>p. get_product d pid = Some p \<and> target_count g = min_group_size p))"
  using assms
  by (auto simp: get_or_create_active_group_buy_def create_group_buy_def Let_def
      dest: get_active_group_buy_mem split: option.splits)

lemma get_or_create_distinct:
  assumes "get_or_create_active_group_buy d now pid = Inr (g, d1)"
    and "distinct (map g_id (group_buys d))"
  shows "distinct (map g_id (group_buys d1))"
  using get_or_create_Inr(7) [OF assms(1)] assms(2) next_id_notin [of "map g_id (group_buys d)"]
  by auto

lemma join_group_eq:
  assumes "get_product d pid = Some p" "get_or_create_active_group_buy d now pid = Inr (g, d1)"
  shows "join_group d now buyer pid =
           Inr (Join_group pid (g_id g) (next_id (map o_id (orders d))),
                send_message (Msg_join_ack buyer (price p * 0.1) (current_count g + 1) (target_count g))
                  (snd (create_order d1 now buyer (g_id g) 1 (price p) (price p * 0.1))))"
proof -
  have "get_product d1 pid = Some p"
    using assms get_or_create_Inr(1) [OF assms(2)] by (simp add: get_product_def)
  then show ?thesis
    using assms(2) get_or_create_Inr(2) [OF assms(2)]
    by (simp add: join_group_def create_order_def Let_def)
qed

lemma join_group_fails_iff:
  "(\<exists>e. join_group d now buyer pid = Inl e) \<longleftrightarrow> get_product d pid = None"
proof (cases "get_product d pid")
  case None
  show ?thesis
  proof (cases "get_active_group_buy d pid")
    case None
    with \<open>get_product d pid = None\<close> show ?thesis
      by (simp add: join_group_def get_or_create_missing)
  next
    case (Some g)
    with None show ?thesis
      by (simp add: join_group_def get_or_create_existing)
  qed
next
  case (Some p)
  obtain g d1 where "get_or_create_active_group_buy d now pid = Inr (g, d1)"
    using get_or_create_total [OF Some] by blast
  from join_group_eq [OF Some this] Some show ?thesis by simp
qed

lemma join_group_error:
  "join_group d now buyer pid = Inl e \<Longrightarrow> e = AttributeError"
  by (auto simp: join_group_def get_or_create_active_group_buy_def Let_def
      split: option.splits sum.splits prod.splits)

text \<open>The store in which \<open>process_new_order\<close> runs during a join.\<close>

lemma join_eq_process:
  assumes prod: "get_product d pid = Some p"
    and goc: "get_or_create_active_group_buy d now pid = Inr (g, d1)"
  shows "join d now buyer pid =
           process_new_order
             (send_message (Msg_join_ack buyer (price p * 0.1) (current_count g + 1) (target_count g))
                (snd (create_order d1 now buyer (g_id g) 1 (price p) (price p * 0.1))))
             now (next_id (map o_id (orders d)))"
  by (simp add: join_def join_group_eq [OF prod goc])

lemma joined_store_lookups:
  fixes buyer :: int
  assumes prod: "get_product d pid = Some p"
    and goc: "get_or_create_active_group_buy d now pid = Inr (g, d1)"
    and dg: "distinct (map g_id (group_buys d))"
  defines "dB \<equiv> send_message (Msg_join_ack buyer (price p * 0.1) (current_count g + 1) (target_count g))
                (snd (create_order d1 now buyer (g_id g) 1 (price p) (price p * 0.1)))"
  shows "get_order dB (next_id (map o_id (orders d))) =
           Some \<lparr> o_id = next_id (map o_id (orders d)), buyer_id = buyer, group_buy_id = g_id g,
                  quantity = 1, unit_price = price p, discount_price = None,
                  deposit_amount = price p * 0.1, status = PENDING, created_at = now \<rparr>"
    and "get_group_buy dB (g_id g) = Some g"
    and "get_product dB (g_product_id g) = Some p"
    and "products dB = products d" and "group_buys dB = group_buys d1"
    and "orders dB = orders d @
           [\<lparr> o_id = next_id (map o_id (orders d)), buyer_id = buyer, group_buy_id = g_id g,
                  quantity = 1, unit_price = price p, discount_price = None,
                  deposit_amount = price p * 0.1, status = PENDING, created_at = now \<rparr>]"
proof -
  note r = get_or_create_Inr [OF goc]
  show os: "orders dB = orders d @
           [\<lparr> o_id = next_id (map o_id (orders d)), buyer_id = buyer, group_buy_id = g_id g,
                  quantity = 1, unit_price = price p, discount_price = None,
                  deposit_amount = price p * 0.1, status = PENDING, created_at = now \<rparr>]"
    by (simp add: dB_def create_order_def r(2) Let_def)
  show gs: "group_buys dB = group_buys d1" by (simp add: dB_def create_order_def Let_def)
  show ps: "products dB = products d" by (simp add: dB_def create_order_def r(1) Let_def)
  from fresh_order_id [of d] show "get_order dB (next_id (map o_id (orders d))) =
           Some \<lparr> o_id = next_id (map o_id (orders d)), buyer_id = buyer, group_buy_id = g_id g,
                  quantity = 1, unit_price = price p, discount_price = None,
                  deposit_amount = price p * 0.1, status = PENDING, created_at = now \<rparr>"
    unfolding get_order_def os by (intro find_append_fresh) simp_all
  show "get_group_buy dB (g_id g) = Some g"
    unfolding get_group_buy_def gs
    using find_distinct_key [OF get_or_create_distinct [OF goc dg] r(4)] .
  show "get_product dB (g_product_id g) = Some p"
    using prod ps r(5) by (simp add: get_product_def)
qed

lemma join_succeeds:
  assumes prod: "get_product d pid = Some p"
    and dg: "distinct (map g_id (group_buys d))"
  shows "\<exists>res d'. join d now buyer pid = Inr (res, d')"
proof -
  obtain g d1 where goc: "get_or_create_active_group_buy d now pid = Inr (g, d1)"
    using get_or_create_total [OF prod] by blast
  define dB where "dB = send_message (Msg_join_ack buyer (price p * 0.1) (current_count g + 1) (target_count g))
                (snd (create_order d1 now buyer (g_id g) 1 (price p) (price p * 0.1)))"
  note lk = joined_store_lookups [OF prod goc dg, of buyer, folded dB_def]
  have j: "join d now buyer pid = process_new_order dB now (next_id (map o_id (orders d)))"
    unfolding dB_def by (rule join_eq_process [OF prod goc])
  show ?thesis
    unfolding j by (simp add: process_new_order_def lk(1,2,3) Let_def)
qed

lemma join_fails_without_product:
  "get_product d pid = None \<Longrightarrow> join d now buyer pid = Inl AttributeError"
  using join_group_fails_iff [of d now buyer pid] join_group_error [of d now buyer pid]
  by (auto simp: join_def)

lemma map_update_fresh_key:
  assumes "\<forall>y\<in>set xs. k y \<noteq> i"
  shows "map (\<lambda>y. if k y = i then f y else y) xs = xs"
  using assms by (induction xs) auto

lemma filter_fresh_key:
  assumes "\<forall>y\<in>set xs. k y \<noteq> i"
  shows "filter (\<lambda>y. k y = i) xs = []"
  using assms by (induction xs) auto

lemma two_joins_complete:
  assumes prod: "get_product d pid = Some p"
    and n2: "min_group_size p = 2"
    and noact: "get_active_group_buy d pid = None"
    and dg: "distinct (map g_id (group_buys d))"
    and dord: "distinct (map o_id (orders d))"
    and ref: "\<forall>r\<in>set (orders d). group_buy_id r \<in> g_id ` set (group_buys d)"
  shows "\<exists>gid d1 d2 g o1 o2.
           join d t1 b1 pid = Inr (Added_to_group_buy gid 1 2, d1)
         \<and> join d1 t2 b2 pid = Inr (Group_buy_completed gid (get_discount_percentage p 2), d2)
         \<and> get_group_buy d2 gid = Some g \<and> \<not> is_active g \<and> current_count g = 2
         \<and> get_orders_by_group d2 gid = [o1, o2]
         \<and> buyer_id o1 = b1 \<and> buyer_id o2 = b2
         \<and> status o1 = CONFIRMED \<and> status o2 = CONFIRMED
         \<and> discount_price o1 = Some (price p * (1 - get_discount_percentage p 2 / 100))
         \<and> discount_price o2 = discount_price o1"
proof -
  define k where "k = next_id (map g_id (group_buys d))"
  define m where "m = next_id (map o_id (orders d))"
  define disc where "disc = get_discount_percentage p 2"
  define g0 where "g0 = \<lparr> g_id = k, g_product_id = pid, current_count = 0,
              target_count = min_group_size p, is_active = True, g_updated_at = t1 \<rparr>"
  define dA where "dA = d\<lparr> group_buys := group_buys d @ [g0] \<rparr>"
  define o1 where "o1 = \<lparr> o_id = m, buyer_id = b1, group_buy_id = k,
                  quantity = 1, unit_price = price p, discount_price = None,
                  deposit_amount = price p * 0.1, status = PENDING, created_at = t1 \<rparr>"
  define dB where "dB = send_message (Msg_join_ack b1 (price p * 0.1) (current_count g0 + 1) (target_count g0))
                (snd (create_order dA t1 b1 (g_id g0) 1 (price p) (price p * 0.1)))"
  have goc1: "get_or_create_active_group_buy d t1 pid = Inr (g0, dA)"
    unfolding g0_def dA_def k_def by (rule get_or_create_new [OF noact prod])
  have kfresh: "\<forall>y\<in>set (group_buys d). g_id y \<noteq> k"
    unfolding k_def by (rule fresh_group_id)
  have mfresh: "\<forall>y\<in>set (orders d). o_id y \<noteq> m"
    unfolding m_def by (rule fresh_order_id)
  note lk1 = joined_store_lookups [OF prod goc1 dg, of b1, folded dB_def m_def]
  have gk [simp]: "g_id g0 = k" "current_count g0 = 0" "target_count g0 = 2" "g_product_id g0 = pid"
    by (simp_all add: g0_def n2)
  have o1eq: "\<lparr> o_id = m, buyer_id = b1, group_buy_id = g_id g0,
                  quantity = 1, unit_price = price p, discount_price = None,
                  deposit_amount = price p * 0.1, status = PENDING, created_at = t1 \<rparr> = o1"
    by (simp add: o1_def)
  define d1 where "d1 = send_message (Msg_joined (buyer_id o1) (current_count g0 + 1) (target_count g0))
                  (modify_group t1 (g_id g0) (\<lambda>g'. g'\<lparr> current_count := current_count g0 + 1 \<rparr>) dB)"
  have j1: "join d t1 b1 pid = Inr (Added_to_group_buy k 1 2, d1)"
  proof -
    have "join d t1 b1 pid = process_new_order dB t1 m"
      unfolding dB_def m_def by (rule join_eq_process [OF prod goc1])
    also have "\<dots> = Inr (Added_to_group_buy (g_id g0) (current_count g0 + 1) (target_count g0), d1)"
      unfolding d1_def
      by (rule process_new_order_pending [OF lk1(1) [unfolded o1eq] _ lk1(3)])
        (simp_all add: o1_def lk1(2) [simplified])
    finally show ?thesis by simp
  qed
  define g1 where "g1 = g0\<lparr> current_count := 1, g_updated_at := t1 \<rparr>"
  have gs1: "group_buys d1 = group_buys d @ [g1]"
    by (simp add: d1_def lk1(5) dA_def g1_def map_update_fresh_key [OF kfresh])
  have os1: "orders d1 = orders d @ [o1]"
    using lk1(6) [unfolded o1eq] by (simp add: d1_def)
  have ps1: "products d1 = products d"
    by (simp add: d1_def lk1(4))
  have prod1: "get_product d1 pid = Some p"
    using prod ps1 by (simp add: get_product_def)
  have g1f [simp]: "g_id g1 = k" "current_count g1 = 1" "target_count g1 = 2" "g_product_id g1 = pid"
    "is_active g1"
    by (simp_all add: g1_def g0_def n2)
  have act1: "get_active_group_buy d1 pid = Some g1"
    unfolding get_active_group_buy_def gs1
    using noact by (intro find_append_fresh) (simp_all add: get_active_group_buy_def find_None_all)
  have goc2: "get_or_create_active_group_buy d1 t2 pid = Inr (g1, d1)"
    by (rule get_or_create_existing [OF act1])
  have dg1: "distinct (map g_id (group_buys d1))"
    using dg kfresh by (auto simp: gs1)
  define m2 where "m2 = next_id (map o_id (orders d1))"
  define o2 where "o2 = \<lparr> o_id = m2, buyer_id = b2, group_buy_id = k,
                  quantity = 1, unit_price = price p, discount_price = None,
                  deposit_amount = price p * 0.1, status = PENDING, created_at = t2 \<rparr>"
  define dB2 where "dB2 = send_message (Msg_join_ack b2 (price p * 0.1) (current_count g1 + 1) (target_count g1))
                (snd (create_order d1 t2 b2 (g_id g1) 1 (price p) (price p * 0.1)))"
  note lk2 = joined_store_lookups [OF prod1 goc2 dg1, of b2, folded dB2_def m2_def]
  have o2eq: "\<lparr> o_id = m2, buyer_id = b2, group_buy_id = g_id g1,
                  quantity = 1, unit_price = price p, discount_price = None,
                  deposit_amount = price p * 0.1, status = PENDING, created_at = t2 \<rparr> = o2"
    by (simp add: o2_def)
  have os2: "orders dB2 = orders d @ [o1, o2]"
    using lk2(6) [unfolded o2eq] by (simp add: os1)
  have m2fresh: "\<forall>y\<in>set (orders d1). o_id y \<noteq> m2"
    unfolding m2_def by (rule fresh_order_id)
  have dord2: "distinct (map o_id (orders dB2))"
    using dord mfresh m2fresh by (auto simp: os2 os1 o1_def o2_def)
  have g2: "get_group_buy dB2 (group_buy_id o2) = Some g1"
    using lk2(2) by (simp add: o2_def)
  have "\<exists>d2. process_new_order dB2 t2 m2 =
            Inr (Group_buy_completed (g_id g1) (get_discount_percentage p (current_count g1 + 1)), d2)
          \<and> completed_store dB2 t2 g1 (get_discount_percentage p (current_count g1 + 1)) d2"
    by (rule process_new_order_complete [OF lk2(1) [unfolded o2eq] g2 lk2(3) _ dord2]) simp
  then obtain d2 where p2: "process_new_order dB2 t2 m2 = Inr (Group_buy_completed k disc, d2)"
    and cs: "completed_store dB2 t2 g1 disc d2"
    by (auto simp: disc_def)
  have j2: "join d1 t2 b2 pid = Inr (Group_buy_completed k disc, d2)"
    using p2 join_eq_process [OF prod1 goc2, of b2, folded dB2_def m2_def] by simp
  have gs2: "group_buys d2 =
       map (\<lambda>g'. if g_id g' = g_id g1
                  then g'\<lparr> current_count := current_count g1 + 1, is_active := False,
                           g_updated_at := t2 \<rparr>
                  else g') (group_buys d1)"
    using cs by (simp add: completed_store_def lk2(5))
  define g2 where "g2 = g1\<lparr> current_count := current_count g1 + 1, is_active := False,
                           g_updated_at := t2 \<rparr>"
  have "get_group_buy d2 (g_id g1) = Some g2"
    unfolding get_group_buy_def gs2 g2_def
    using find_map_key [OF dg1, of g1 "\<lambda>g'. if g_id g' = g_id g1
                  then g'\<lparr> current_count := current_count g1 + 1, is_active := False,
                           g_updated_at := t2 \<rparr>
                  else g'"]
    by (simp add: gs1)
  then have grp: "get_group_buy d2 k = Some g2" "\<not> is_active g2" "current_count g2 = 2"
    by (simp_all add: g2_def)
  define fin where "fin = (\<lambda>r::order. r\<lparr> discount_price := Some (unit_price r * (1 - disc / 100)),
                         status := CONFIRMED \<rparr>)"
  have os_d2: "orders d2 = map (\<lambda>r. if group_buy_id r = k then fin r else r) (orders d @ [o1, o2])"
    using cs by (simp add: completed_store_def os2 fin_def)
  have nolink: "\<forall>r\<in>set (orders d). group_buy_id r \<noteq> k"
    using ref kfresh by force
  have "get_orders_by_group d2 k = [fin o1, fin o2]"
    unfolding get_orders_by_group_def os_d2
    using nolink by (simp add: filter_map comp_def fin_def o1_def o2_def filter_fresh_key [OF nolink] cong: if_cong)
  moreover have "buyer_id (fin o1) = b1" "buyer_id (fin o2) = b2"
    "status (fin o1) = CONFIRMED" "status (fin o2) = CONFIRMED"
    "discount_price (fin o1) = Some (price p * (1 - disc / 100))"
    "discount_price (fin o2) = discount_price (fin o1)"
    by (simp_all add: fin_def o1_def o2_def)
  ultimately show ?thesis
    using j1 j2 grp unfolding disc_def by blast
qed

section \<open>Processing an order that does not exist\<close>

text \<open>
  C10. For every store and every order id that identifies no order,
  \<open>process_new_order\<close> returns the result ``Order not found'' without raising and
  leaves the store (groups, orders, products, sent messages) as it was.
\<close>

theorem process_new_order_unknown_order:
  "get_order d order_id = None \<Longrightarrow> process_new_order d now order_id = Inr (Order_not_found, d)"
  by (simp add: process_new_order_def)

theorem process_new_order_unknown_order_witness:
  "get_order empty_db 5 = None \<and> process_new_order empty_db 0 5 = Inr (Order_not_found, empty_db)"
  using process_new_order_unknown_order [of empty_db 5 0]
  by (simp add: get_order_def empty_db_def)

section \<open>Failure of a join\<close>

text \<open>
  The \<open>join_group\<close> branch raises exactly when \<open>get_product\<close> finds no row, and
  what it raises is the \<open>AttributeError\<close> of dereferencing \<open>None\<close>; with the product
  present and unique group keys the whole join returns a result.
\<close>

lemma join_raises_iff_product_missing:
  "((\<exists>e. join_group d now buyer pid = Inl e) \<longleftrightarrow> get_product d pid = None)
   \<and> (get_product d pid = None \<longrightarrow>
        join_group d now buyer pid = Inl AttributeError \<and> join d now buyer pid = Inl AttributeError)
   \<and> (distinct (map g_id (group_buys d)) \<and> get_product d pid \<noteq> None \<longrightarrow>
        (\<exists>res d'. join d now buyer pid = Inr (res, d')))"
proof (intro conjI impI)
  show "(\<exists>e. join_group d now buyer pid = Inl e) \<longleftrightarrow> get_product d pid = None"
    by (rule join_group_fails_iff)
next
  assume none: "get_product d pid = None"
  then obtain e where "join_group d now buyer pid = Inl e"
    using join_group_fails_iff [of d now buyer pid] by blast
  then show "join_group d now buyer pid = Inl AttributeError"
    using join_group_error by blast
  show "join d now buyer pid = Inl AttributeError"
    by (rule join_fails_without_product [OF none])
next
  assume "distinct (map g_id (group_buys d)) \<and> get_product d pid \<noteq> None"
  then show "\<exists>res d'. join d now buyer pid = Inr (res, d')"
    using join_succeeds by blast
qed

text \<open>
  C9. A join for a product id that resolves to no product row is to fail with NotFound,
  a client error. The code does not check the lookup: on a store without product 99 the
  \<open>join_group\<close> branch dereferences the missing row and raises \<open>AttributeError\<close>, which
  the webhook endpoint reports as status 500, whereas the product route answers 404 for
  the same id.
\<close>

theorem join_missing_product_is_server_error:
  "get_product empty_db 99 = None
   \<and> join_group empty_db 0 7 99 = Inl AttributeError
   \<and> join empty_db 0 7 99 = Inl AttributeError
   \<and> bale_webhook_status (join_group empty_db 0 7 99) = 500
   \<and> read_product_status empty_db 99 = 404"
proof -
  have none: "get_product empty_db 99 = None"
    by (simp add: get_product_def empty_db_def example_product_def)
  from join_raises_iff_product_missing [of empty_db 0 7 99] none
  have r: "join_group empty_db 0 7 99 = Inl AttributeError" "join empty_db 0 7 99 = Inl AttributeError"
    by blast+
  show ?thesis
    by (simp add: none r bale_webhook_status_def read_product_status_def)
qed

section \<open>Completion of a group on a join\<close>

text \<open>
  C3. When \<open>process_new_order\<close> handles an order whose group reaches or exceeds its
  target with the incremented count, it returns ``Group buy completed'' with the
  discount resolved for the incremented count; the group row has the incremented count
  and is inactive; every order linked to the group has
  \<open>discount_price = unit_price * (1 - discount / 100)\<close> and status CONFIRMED, and the
  other orders are untouched. Hence for a product with \<open>min_group_size = 2\<close> and no
  active group, two joins in a row give ``Added to group buy'' and then ``Group buy
  completed'' for the same group, which ends inactive with exactly the two orders, both
  CONFIRMED with the same discount price. Primary keys are unique.
\<close>

theorem join_completes_group:
  assumes dg: "distinct (map g_id (group_buys d))" and dord: "distinct (map o_id (orders d))"
  shows
    "(get_order d oid = Some ord \<and> get_group_buy d (group_buy_id ord) = Some g
        \<and> get_product d (g_product_id g) = Some p \<and> target_count g \<le> current_count g + 1 \<longrightarrow>
      (\<exists>d'. process_new_order d now oid =
               Inr (Group_buy_completed (g_id g) (get_discount_percentage p (current_count g + 1)), d')
           \<and> get_group_buy d' (g_id g) =
               Some (g\<lparr> current_count := current_count g + 1, is_active := False,
                        g_updated_at := now \<rparr>)
           \<and> orders d' =
               map (\<lambda>r. if group_buy_id r = g_id g
                         then r\<lparr> discount_price :=
                                   Some (unit_price r *
                                         (1 - get_discount_percentage p (current_count g + 1) / 100)),
                                 status := CONFIRMED \<rparr>
                         else r) (orders d)))
   \<and> (get_product d pid = Some q \<and> min_group_size q = 2 \<and> get_active_group_buy d pid = None
        \<and> (\<forall>r\<in>set (orders d). group_buy_id r \<in> g_id ` set (group_buys d)) \<longrightarrow>
      (\<exists>gid d1 d2 g' o1 o2.
           join d t1 b1 pid = Inr (Added_to_group_buy gid 1 2, d1)
         \<and> join d1 t2 b2 pid = Inr (Group_buy_completed gid (get_discount_percentage q 2), d2)
         \<and> get_group_buy d2 gid = Some g' \<and> \<not> is_active g' \<and> current_count g' = 2
         \<and> get_orders_by_group d2 gid = [o1, o2]
         \<and> buyer_id o1 = b1 \<and> buyer_id o2 = b2
         \<and> status o1 = CONFIRMED \<and> status o2 = CONFIRMED
         \<and> discount_price o1 = Some (price q * (1 - get_discount_percentage q 2 / 100))
         \<and> discount_price o2 = discount_price o1))"
proof (intro conjI impI)
  assume h: "get_order d oid = Some ord \<and> get_group_buy d (group_buy_id ord) = Some g
        \<and> get_product d (g_product_id g) = Some p \<and> target_count g \<le> current_count g + 1"
  let ?disc = "get_discount_percentage p (current_count g + 1)"
  from h obtain d' where res: "process_new_order d now oid = Inr (Group_buy_completed (g_id g) ?disc, d')"
    and cs: "completed_store d now g ?disc d'"
    using process_new_order_complete [of d oid ord g p now] dord by blast
  have gin: "g \<in> set (group_buys d)"
    using h get_group_buy_mem by blast
  have "get_group_buy d' (g_id g) =
               Some (g\<lparr> current_count := current_count g + 1, is_active := False,
                        g_updated_at := now \<rparr>)"
    using cs find_map_key [OF dg gin, of "\<lambda>g'. if g_id g' = g_id g
                  then g'\<lparr> current_count := current_count g + 1, is_active := False,
                           g_updated_at := now \<rparr>
                  else g'"]
    by (simp add: completed_store_def get_group_buy_def)
  with res cs show "\<exists>d'. process_new_order d now oid = Inr (Group_buy_completed (g_id g) ?disc, d')
           \<and> get_group_buy d' (g_id g) =
               Some (g\<lparr> current_count := current_count g + 1, is_active := False,
                        g_updated_at := now \<rparr>)
           \<and> orders d' =
               map (\<lambda>r. if group_buy_id r = g_id g
                         then r\<lparr> discount_price := Some (unit_price r * (1 - ?disc / 100)),
                                 status := CONFIRMED \<rparr>
                         else r) (orders d)"
    unfolding completed_store_def by blast
next
  assume h: "get_product d pid = Some q \<and> min_group_size q = 2 \<and> get_active_group_buy d pid = None
        \<and> (\<forall>r\<in>set (orders d). group_buy_id r \<in> g_id ` set (group_buys d))"
  then show "\<exists>gid d1 d2 g' o1 o2.
           join d t1 b1 pid = Inr (Added_to_group_buy gid 1 2, d1)
         \<and> join d1 t2 b2 pid = Inr (Group_buy_completed gid (get_discount_percentage q 2), d2)
         \<and> get_group_buy d2 gid = Some g' \<and> \<not> is_active g' \<and> current_count g' = 2
         \<and> get_orders_by_group d2 gid = [o1, o2]
         \<and> buyer_id o1 = b1 \<and> buyer_id o2 = b2
         \<and> status o1 = CONFIRMED \<and> status o2 = CONFIRMED
         \<and> discount_price o1 = Some (price q * (1 - get_discount_percentage q 2 / 100))
         \<and> discount_price o2 = discount_price o1"
    using two_joins_complete [of d pid q t1 b1 t2 b2] dg dord by blast
qed

theorem join_completes_group_witness:
  "distinct (map g_id (group_buys two_clicks_db)) \<and> distinct (map o_id (orders two_clicks_db))
   \<and> (\<exists>d'. process_new_order two_clicks_db 5 2 = Inr (Group_buy_completed 1 5, d')
         \<and> get_group_buy d' 1 =
               Some \<lparr> g_id = 1, g_product_id = 1, current_count = 2, target_count = 2,
                      is_active = False, g_updated_at = 5 \<rparr>
         \<and> map discount_price (orders d') = [Some 95, Some 95]
         \<and> map status (orders d') = [CONFIRMED, CONFIRMED])
   \<and> (\<exists>gid d1 d2 g' o1 o2.
           join empty_db 0 7 1 = Inr (Added_to_group_buy gid 1 2, d1)
         \<and> join d1 1 8 1 = Inr (Group_buy_completed gid 5, d2)
         \<and> get_group_buy d2 gid = Some g' \<and> \<not> is_active g' \<and> current_count g' = 2
         \<and> get_orders_by_group d2 gid = [o1, o2]
         \<and> buyer_id o1 = 7 \<and> buyer_id o2 = 8
         \<and> status o1 = CONFIRMED \<and> status o2 = CONFIRMED
         \<and> discount_price o1 = Some 95
         \<and> discount_price o2 = discount_price o1)"
proof -
  have d5: "get_discount_percentage example_product 2 = 5"
    by (simp add: get_discount_percentage_def example_product_def sort_key_reverse_def)
  have a: "distinct (map g_id (group_buys two_clicks_db))" "distinct (map o_id (orders two_clicks_db))"
    by (simp_all add: two_clicks_db_def)
  have b: "distinct (map g_id (group_buys empty_db))" "distinct (map o_id (orders empty_db))"
    by (simp_all add: empty_db_def)
  have h1: "get_order two_clicks_db 2 =
              Some \<lparr> o_id = 2, buyer_id = 8, group_buy_id = 1, quantity = 1, unit_price = 100,
                     discount_price = None, deposit_amount = 10, status = PENDING, created_at = 1 \<rparr>"
    by (simp add: get_order_def two_clicks_db_def)
  have h2: "get_group_buy two_clicks_db 1 =
              Some \<lparr> g_id = 1, g_product_id = 1, current_count = 1, target_count = 2,
                     is_active = True, g_updated_at = 0 \<rparr>"
    by (simp add: get_group_buy_def two_clicks_db_def)
  have h3: "get_product two_clicks_db 1 = Some example_product"
    by (simp add: get_product_def two_clicks_db_def example_product_def)
  have p1: "\<exists>d'. process_new_order two_clicks_db 5 2 = Inr (Group_buy_completed 1 5, d')
         \<and> get_group_buy d' 1 =
               Some \<lparr> g_id = 1, g_product_id = 1, current_count = 2, target_count = 2,
                      is_active = False, g_updated_at = 5 \<rparr>
         \<and> map discount_price (orders d') = [Some 95, Some 95]
         \<and> map status (orders d') = [CONFIRMED, CONFIRMED]"
    using join_completes_group [OF a, THEN conjunct1, of 2
        "\<lparr> o_id = 2, buyer_id = 8, group_buy_id = 1, quantity = 1, unit_price = 100,
           discount_price = None, deposit_amount = 10, status = PENDING, created_at = 1 \<rparr>"
        "\<lparr> g_id = 1, g_product_id = 1, current_count = 1, target_count = 2,
           is_active = True, g_updated_at = 0 \<rparr>" example_product 5] h1 h2 h3
    by (auto simp: d5 two_clicks_db_def)
  have h4: "get_product empty_db 1 = Some example_product"
    "min_group_size example_product = 2" "price example_product = 100"
    "get_active_group_buy empty_db 1 = None"
    "\<forall>r\<in>set (orders empty_db). group_buy_id r \<in> g_id ` set (group_buys empty_db)"
    by (simp_all add: get_product_def empty_db_def example_product_def get_active_group_buy_def)
  have p2: "\<exists>gid d1 d2 g' o1 o2.
           join empty_db 0 7 1 = Inr (Added_to_group_buy gid 1 2, d1)
         \<and> join d1 1 8 1 = Inr (Group_buy_completed gid 5, d2)
         \<and> get_group_buy d2 gid = Some g' \<and> \<not> is_active g' \<and> current_count g' = 2
         \<and> get_orders_by_group d2 gid = [o1, o2]
         \<and> buyer_id o1 = 7 \<and> buyer_id o2 = 8
         \<and> status o1 = CONFIRMED \<and> status o2 = CONFIRMED
         \<and> discount_price o1 = Some 95
         \<and> discount_price o2 = discount_price o1"
    using join_completes_group [OF b, THEN conjunct2, of 1 example_product 0 7 1 8] h4
    by (simp add: d5)
  from a p1 p2 show ?thesis by blast
qed

section \<open>Rearrangement: auxiliary facts\<close>

subsection \<open>Positions in a list of orders\<close>

lemma order_index_None: "order_index i xs = None \<longleftrightarrow> i \<notin> o_id ` set xs"
  by (induction xs) auto

lemma order_index_Some:
  "order_index i xs = Some j \<Longrightarrow> j < length xs \<and> o_id (xs ! j) = i"
proof (induction xs arbitrary: j)
  case Nil
  then show ?case by simp
next
  case (Cons x xs)
  then show ?case by (cases j) (auto split: if_splits)
qed

lemma order_index_nth:
  "distinct (map o_id xs) \<Longrightarrow> j < length xs \<Longrightarrow> order_index (o_id (xs ! j)) xs = Some j"
proof (induction xs arbitrary: j)
  case Nil
  then show ?case by simp
next
  case (Cons x xs)
  show ?case
  proof (cases j)
    case 0
    then show ?thesis by simp
  next
    case (Suc j')
    with Cons.prems have "xs ! j' \<in> set xs" by simp
    with Cons.prems have "o_id (xs ! j') \<noteq> o_id x" by (auto simp: image_iff)
    with Suc Cons show ?thesis by simp
  qed
qed

lemma order_index_slice:
  assumes "distinct (map o_id xs)"
  shows "i \<in> o_id ` set (take a (drop b xs)) \<longleftrightarrow>
         (\<exists>j. order_index i xs = Some j \<and> b \<le> j \<and> j < b + a)"
proof
  assume "i \<in> o_id ` set (take a (drop b xs))"
  then obtain y where y: "y \<in> set (take a (drop b xs))" "o_id y = i" by auto
  then obtain j' where j': "j' < length (take a (drop b xs))" "take a (drop b xs) ! j' = y"
    by (auto simp: in_set_conv_nth)
  then have "b + j' < length xs" "xs ! (b + j') = y" "j' < a" by auto
  with assms y have "order_index i xs = Some (b + j')"
    using order_index_nth [of xs "b + j'"] by simp
  with \<open>j' < a\<close> show "\<exists>j. order_index i xs = Some j \<and> b \<le> j \<and> j < b + a" by simp
next
  assume "\<exists>j. order_index i xs = Some j \<and> b \<le> j \<and> j < b + a"
  then obtain j where j: "order_index i xs = Some j" "b \<le> j" "j < b + a" by blast
  from order_index_Some [OF j(1)] have "j < length xs" "o_id (xs ! j) = i" by simp_all
  with j have "j - b < length (take a (drop b xs))" "take a (drop b xs) ! (j - b) = xs ! j"
    by auto
  then have "xs ! j \<in> set (take a (drop b xs))" by (metis nth_mem)
  with \<open>o_id (xs ! j) = i\<close> show "i \<in> o_id ` set (take a (drop b xs))" by auto
qed

lemma order_index_drop:
  assumes "distinct (map o_id xs)"
  shows "i \<in> o_id ` set (drop b xs) \<longleftrightarrow> (\<exists>j. order_index i xs = Some j \<and> b \<le> j)"
proof -
  have "drop b xs = take (length xs) (drop b xs)" by simp
  then have "i \<in> o_id ` set (drop b xs) \<longleftrightarrow> i \<in> o_id ` set (take (length xs) (drop b xs))"
    by simp
  also have "\<dots> \<longleftrightarrow> (\<exists>j. order_index i xs = Some j \<and> b \<le> j \<and> j < b + length xs)"
    by (rule order_index_slice [OF assms])
  also have "\<dots> \<longleftrightarrow> (\<exists>j. order_index i xs = Some j \<and> b \<le> j)"
    using order_index_Some [of i xs] by fastforce
  finally show ?thesis .
qed

subsection \<open>Keys of groups created in a row\<close>

lemma next_id_run:
  "next_id (ids @ map (\<lambda>i. next_id ids + int i) [0..<m]) = next_id ids + int m"
proof (induction m)
  case 0
  then show ?case by simp
next
  case (Suc m)
  have "next_id (ids @ map (\<lambda>i. next_id ids + int i) [0..<Suc m]) =
        max (next_id ids + int m) (fold max (ids @ map (\<lambda>i. next_id ids + int i) [0..<m]) 0) + 1"
    by (simp add: next_id_def)
  also have "fold max (ids @ map (\<lambda>i. next_id ids + int i) [0..<m]) 0 = next_id ids + int m - 1"
    using Suc.IH by (simp add: next_id_def)
  finally show ?case by simp
qed

subsection \<open>A loop that rewrites group rows\<close>

lemma groups_fold_rewrite:
  assumes step: "\<And>x d. group_buys (stp x d) = map (\<lambda>g. if g_id g = g_id x then f g else g) (group_buys d)"
    and keep: "\<And>g. g_id (f g) = g_id g"
    and idem: "\<And>g. f (f g) = f g"
  shows "group_buys (fold stp xs d) = map (\<lambda>g. if g_id g \<in> g_id ` set xs then f g else g) (group_buys d)"
proof (induction xs arbitrary: d)
  case Nil
  then show ?case by simp
next
  case (Cons x xs)
  have "group_buys (fold stp (x # xs) d) =
        map (\<lambda>g. if g_id g \<in> g_id ` set xs then f g else g) (group_buys (stp x d))"
    using Cons.IH [of "stp x d"] by simp
  also have "\<dots> = map (\<lambda>g. if g_id g \<in> g_id ` set (x # xs) then f g else g) (group_buys d)"
    by (simp add: step keep idem)
  finally show ?case .
qed

lemma close_groups_fields:
  "products (close_groups now groups d) = products d"
  "orders (close_groups now groups d) = orders d"
  "outbox (close_groups now groups d) = outbox d"
  "group_buys (close_groups now groups d) =
     map (\<lambda>g. if g_id g \<in> g_id ` set groups
               then g\<lparr> is_active := False, g_updated_at := now \<rparr> else g) (group_buys d)"
proof -
  show "products (close_groups now groups d) = products d"
    unfolding close_groups_def by (rule fold_keeps_field) simp
  show "orders (close_groups now groups d) = orders d"
    unfolding close_groups_def by (rule fold_keeps_field) simp
  show "outbox (close_groups now groups d) = outbox d"
    unfolding close_groups_def by (rule fold_keeps_field) simp
  show "group_buys (close_groups now groups d) =
     map (\<lambda>g. if g_id g \<in> g_id ` set groups
               then g\<lparr> is_active := False, g_updated_at := now \<rparr> else g) (group_buys d)"
    unfolding close_groups_def by (rule groups_fold_rewrite) simp_all
qed

subsection \<open>The orders collected for a product\<close>

lemma set_collect_orders:
  "set (collect_orders d groups) =
     {r \<in> set (orders d). group_buy_id r \<in> g_id ` set groups}"
  by (auto simp: collect_orders_def get_orders_by_group_def)

lemma sorted_collect_orders: "sorted (map created_at (collect_orders d groups))"
  by (simp add: collect_orders_def)

lemma distinct_ids_concat_groups:
  assumes "distinct (map o_id os)"
  shows "distinct (map g_id gs) \<Longrightarrow>
         distinct (map o_id (concat (map (\<lambda>g. filter (\<lambda>r. group_buy_id r = g_id g) os) gs)))"
proof (induction gs)
  case Nil
  then show ?case by simp
next
  case (Cons g gs)
  have d1: "distinct (map o_id (filter (\<lambda>r. group_buy_id r = g_id g) os))"
    using assms by (simp add: distinct_map_filter)
  have "o_id ` set (filter (\<lambda>r. group_buy_id r = g_id g) os) \<inter>
        o_id ` set (concat (map (\<lambda>g. filter (\<lambda>r. group_buy_id r = g_id g) os) gs)) = {}"
  proof (rule ccontr)
    assume "\<not> ?thesis"
    then obtain r r' g' where r: "r \<in> set os" "group_buy_id r = g_id g"
      and r': "r' \<in> set os" "g' \<in> set gs" "group_buy_id r' = g_id g'" and eq: "o_id r = o_id r'"
      by auto
    from assms r(1) r'(1) eq have "r = r'" by (meson distinct_map inj_onD)
    with r r' Cons.prems show False by (auto simp: image_iff)
  qed
  with d1 Cons show ?case by simp
qed

lemma distinct_collect_orders:
  assumes "distinct (map o_id (orders d))" "distinct (map g_id groups)"
  shows "distinct (map o_id (collect_orders d groups))"
proof -
  let ?xs = "concat (map (\<lambda>g. get_orders_by_group d (g_id g)) groups)"
  have "distinct (map o_id ?xs)"
    using distinct_ids_concat_groups [OF assms] by (simp add: get_orders_by_group_def)
  then have "distinct ?xs" "inj_on o_id (set ?xs)" by (simp_all add: distinct_map)
  then show ?thesis by (simp add: collect_orders_def distinct_map)
qed

section \<open>Rearrangement: closed form for one product\<close>

lemma create_group_buy_eq:
  "create_group_buy d now pid target cur active =
     (\<lparr> g_id = next_id (map g_id (group_buys d)), g_product_id = pid, current_count = cur,
        target_count = target, is_active = active, g_updated_at = now \<rparr>,
      d\<lparr> group_buys := group_buys d @
           [\<lparr> g_id = next_id (map g_id (group_buys d)), g_product_id = pid, current_count = cur,
              target_count = target, is_active = active, g_updated_at = now \<rparr>] \<rparr>)"
  by (simp add: create_group_buy_def Let_def)

lemma confirm_order_fields [simp]:
  "products (confirm_order k disc x d) = products d"
  "group_buys (confirm_order k disc x d) = group_buys d"
  "orders (confirm_order k disc x d) =
     map (\<lambda>r. if o_id r = o_id x
               then r\<lparr> group_buy_id := k, status := CONFIRMED,
                       discount_price := Some (unit_price r * (1 - disc / 100)) \<rparr>
               else r) (orders d)"
  by (simp_all add: confirm_order_def)

lemma move_order_fields [simp]:
  "products (move_order k rc n x d) = products d"
  "group_buys (move_order k rc n x d) = group_buys d"
  "orders (move_order k rc n x d) =
     map (\<lambda>r. if o_id r = o_id x then r\<lparr> group_buy_id := k \<rparr> else r) (orders d)"
  by (simp_all add: move_order_def)

lemma fold_confirm_fields:
  "products (fold (confirm_order k disc) xs d) = products d"
  "group_buys (fold (confirm_order k disc) xs d) = group_buys d"
  "orders (fold (confirm_order k disc) xs d) =
     map (\<lambda>r. if o_id r \<in> o_id ` set xs
               then r\<lparr> group_buy_id := k, status := CONFIRMED,
                       discount_price := Some (unit_price r * (1 - disc / 100)) \<rparr>
               else r) (orders d)"
proof -
  show "products (fold (confirm_order k disc) xs d) = products d"
    by (rule fold_keeps_field) simp
  show "group_buys (fold (confirm_order k disc) xs d) = group_buys d"
    by (rule fold_keeps_field) simp
  show "orders (fold (confirm_order k disc) xs d) =
     map (\<lambda>r. if o_id r \<in> o_id ` set xs
               then r\<lparr> group_buy_id := k, status := CONFIRMED,
                       discount_price := Some (unit_price r * (1 - disc / 100)) \<rparr>
               else r) (orders d)"
    by (rule orders_fold_rewrite) simp_all
qed

lemma fold_move_fields:
  "products (fold (move_order k rc n) xs d) = products d"
  "group_buys (fold (move_order k rc n) xs d) = group_buys d"
  "orders (fold (move_order k rc n) xs d) =
     map (\<lambda>r. if o_id r \<in> o_id ` set xs then r\<lparr> group_buy_id := k \<rparr> else r) (orders d)"
proof -
  show "products (fold (move_order k rc n) xs d) = products d"
    by (rule fold_keeps_field) simp
  show "group_buys (fold (move_order k rc n) xs d) = group_buys d"
    by (rule fold_keeps_field) simp
  show "orders (fold (move_order k rc n) xs d) =
     map (\<lambda>r. if o_id r \<in> o_id ` set xs then r\<lparr> group_buy_id := k \<rparr> else r) (orders d)"
    by (rule orders_fold_rewrite) simp_all
qed

text \<open>One pass of the loop that forms complete groups.\<close>

lemma form_complete_group_fields:
  fixes n :: nat
  assumes "min_group_size p = int n"
  shows "products (fst (form_complete_group now p pid all i (d, results))) = products d"
    and "group_buys (fst (form_complete_group now p pid all i (d, results))) = group_buys d @
           [\<lparr> g_id = next_id (map g_id (group_buys d)), g_product_id = pid,
              current_count = int n, target_count = int n, is_active = False,
              g_updated_at = now \<rparr>]"
    and "orders (fst (form_complete_group now p pid all i (d, results))) =
           map (\<lambda>r. if o_id r \<in> o_id ` set (take n (drop (i * n) all))
                     then r\<lparr> group_buy_id := next_id (map g_id (group_buys d)), status := CONFIRMED,
                             discount_price :=
                               Some (unit_price r * (1 - get_discount_percentage p (int n) / 100)) \<rparr>
                     else r) (orders d)"
    and "snd (form_complete_group now p pid all i (d, results)) = results @
           [New_group pid (next_id (map g_id (group_buys d)))
              (int (length (take n (drop (i * n) all)))) (get_discount_percentage p (int n))]"
proof -
  have idx: "nat (int i * int n) = i * n" by (simp add: nat_mult_distrib)
  show "products (fst (form_complete_group now p pid all i (d, results))) = products d"
    by (simp add: form_complete_group_def create_group_buy_eq assms(1) fold_confirm_fields Let_def)
  show "group_buys (fst (form_complete_group now p pid all i (d, results))) = group_buys d @
           [\<lparr> g_id = next_id (map g_id (group_buys d)), g_product_id = pid,
              current_count = int n, target_count = int n, is_active = False,
              g_updated_at = now \<rparr>]"
    by (simp add: form_complete_group_def create_group_buy_eq assms(1) fold_confirm_fields Let_def)
  show "orders (fst (form_complete_group now p pid all i (d, results))) =
           map (\<lambda>r. if o_id r \<in> o_id ` set (take n (drop (i * n) all))
                     then r\<lparr> group_buy_id := next_id (map g_id (group_buys d)), status := CONFIRMED,
                             discount_price :=
                               Some (unit_price r * (1 - get_discount_percentage p (int n) / 100)) \<rparr>
                     else r) (orders d)"
    by (simp add: form_complete_group_def create_group_buy_eq assms(1) fold_confirm_fields idx Let_def)
  show "snd (form_complete_group now p pid all i (d, results)) = results @
           [New_group pid (next_id (map g_id (group_buys d)))
              (int (length (take n (drop (i * n) all)))) (get_discount_percentage p (int n))]"
    by (simp add: form_complete_group_def create_group_buy_eq assms(1) idx Let_def)
qed

lemma div_in_block:
  fixes j m n :: nat
  assumes "m * n \<le> j" "j < m * n + n"
  shows "j div n = m"
  using assms by (intro div_nat_eqI) (simp_all add: mult.commute)

lemma complete_loop_fields:
  fixes n m :: nat
  assumes n: "min_group_size p = int n"
    and dist: "distinct (map o_id all)"
    and m: "m * n \<le> length all"
  shows "products (fst (fold (form_complete_group now p pid all) [0..<m] (d, results))) = products d
    \<and> group_buys (fst (fold (form_complete_group now p pid all) [0..<m] (d, results))) =
        group_buys d @
        map (\<lambda>i. \<lparr> g_id = next_id (map g_id (group_buys d)) + int i, g_product_id = pid,
                    current_count = int n, target_count = int n, is_active = False,
                    g_updated_at = now \<rparr>) [0..<m]
    \<and> orders (fst (fold (form_complete_group now p pid all) [0..<m] (d, results))) =
        map (\<lambda>r. case order_index (o_id r) all of
                    None \<Rightarrow> r
                  | Some j \<Rightarrow>
                      if j < m * n
                      then r\<lparr> group_buy_id := next_id (map g_id (group_buys d)) + int (j div n),
                              status := CONFIRMED,
                              discount_price :=
                                Some (unit_price r * (1 - get_discount_percentage p (int n) / 100)) \<rparr>
                      else r) (orders d)
    \<and> snd (fold (form_complete_group now p pid all) [0..<m] (d, results)) =
        results @
        map (\<lambda>i. New_group pid (next_id (map g_id (group_buys d)) + int i) (int n)
                    (get_discount_percentage p (int n))) [0..<m]"
  using m
proof (induction m)
  case 0
  have "map (\<lambda>r. case order_index (o_id r) all of
                    None \<Rightarrow> r
                  | Some j \<Rightarrow>
                      if j < 0 * n
                      then r\<lparr> group_buy_id := next_id (map g_id (group_buys d)) + int (j div n),
                              status := CONFIRMED,
                              discount_price :=
                                Some (unit_price r * (1 - get_discount_percentage p (int n) / 100)) \<rparr>
                      else r) (orders d) = orders d"
    by (rule map_idI) (simp split: option.splits)
  then show ?case by simp
next
  case (Suc m)
  define base where "base = next_id (map g_id (group_buys d))"
  define disc where "disc = get_discount_percentage p (int n)"
  define S where "S = fold (form_complete_group now p pid all) [0..<m] (d, results)"
  define conf where "conf = (\<lambda>k (r::order). r\<lparr> group_buy_id := k, status := CONFIRMED,
                              discount_price := Some (unit_price r * (1 - disc / 100)) \<rparr>)"
  define F where "F = (\<lambda>m r. case order_index (o_id r) all of
                    None \<Rightarrow> r
                  | Some j \<Rightarrow> if j < m * n then conf (base + int (j div n)) r else r)"
  from Suc.prems have mle: "m * n \<le> length all" and blk: "m * n + n \<le> length all" by simp_all
  have IH1: "products (fst S) = products d"
    and IH2: "group_buys (fst S) = group_buys d @
        map (\<lambda>i. \<lparr> g_id = base + int i, g_product_id = pid,
                    current_count = int n, target_count = int n, is_active = False,
                    g_updated_at = now \<rparr>) [0..<m]"
    and IH3: "orders (fst S) = map (F m) (orders d)"
    and IH4: "snd S = results @ map (\<lambda>i. New_group pid (base + int i) (int n) disc) [0..<m]"
    using Suc.IH [OF mle] unfolding S_def F_def conf_def base_def disc_def by simp_all
  have step: "fold (form_complete_group now p pid all) [0..<Suc m] (d, results) =
              form_complete_group now p pid all m (fst S, snd S)"
    by (simp add: S_def)
  have key: "next_id (map g_id (group_buys (fst S))) = base + int m"
    using next_id_run [of "map g_id (group_buys d)" m]
    by (simp add: IH2 base_def comp_def)
  note raw = form_complete_group_fields [OF n, of now pid all m "fst S" "snd S", unfolded key]
  have ff1: "products (fst (form_complete_group now p pid all m (fst S, snd S))) = products (fst S)"
    by (rule raw(1))
  have ff2: "group_buys (fst (form_complete_group now p pid all m (fst S, snd S))) =
      group_buys (fst S) @
        [\<lparr> g_id = base + int m, g_product_id = pid, current_count = int n, target_count = int n,
           is_active = False, g_updated_at = now \<rparr>]"
    by (rule raw(2))
  have ff3: "orders (fst (form_complete_group now p pid all m (fst S, snd S))) =
      map (\<lambda>r. if o_id r \<in> o_id ` set (take n (drop (m * n) all))
                then conf (base + int m) r else r) (orders (fst S))"
    using raw(3) unfolding conf_def disc_def by simp
  have ff4: "snd (form_complete_group now p pid all m (fst S, snd S)) =
      snd S @ [New_group pid (base + int m) (int (length (take n (drop (m * n) all)))) disc]"
    using raw(4) unfolding disc_def by simp
  have oidF: "\<And>r k. o_id (F k r) = o_id r"
    by (simp add: F_def conf_def split: option.splits)
  have pt: "(if o_id (F m r) \<in> o_id ` set (take n (drop (m * n) all))
             then conf (base + int m) (F m r) else F m r) = F (Suc m) r" for r
  proof (cases "order_index (o_id r) all")
    case None
    then have "o_id r \<notin> o_id ` set (take n (drop (m * n) all))"
      using order_index_slice [OF dist, of "o_id r" n "m * n"] by simp
    with None show ?thesis by (simp add: F_def oidF [unfolded F_def])
  next
    case (Some j)
    have in_iff: "o_id r \<in> o_id ` set (take n (drop (m * n) all)) \<longleftrightarrow> m * n \<le> j \<and> j < m * n + n"
      using order_index_slice [OF dist, of "o_id r" n "m * n"] Some by simp
    consider "j < m * n" | "m * n \<le> j" "j < m * n + n" | "m * n + n \<le> j" by linarith
    then show ?thesis
    proof cases
      case 1
      then show ?thesis using Some in_iff oidF [of m r] by (simp add: F_def)
    next
      case 2
      then have "j div n = m" by (rule div_in_block)
      with 2 show ?thesis using Some in_iff oidF [of m r] by (simp add: F_def)
    next
      case 3
      then show ?thesis using Some in_iff oidF [of m r] by (simp add: F_def)
    qed
  qed
  have len: "length (take n (drop (m * n) all)) = n" using blk by simp
  have 1: "products (fst (fold (form_complete_group now p pid all) [0..<Suc m] (d, results))) = products d"
    unfolding step using ff1 IH1 by simp
  have 2: "group_buys (fst (fold (form_complete_group now p pid all) [0..<Suc m] (d, results))) =
        group_buys d @
        map (\<lambda>i. \<lparr> g_id = base + int i, g_product_id = pid,
                    current_count = int n, target_count = int n, is_active = False,
                    g_updated_at = now \<rparr>) [0..<Suc m]"
    unfolding step using ff2 IH2 by simp
  have "orders (fst (fold (form_complete_group now p pid all) [0..<Suc m] (d, results))) =
        map (\<lambda>r. if o_id r \<in> o_id ` set (take n (drop (m * n) all))
                  then conf (base + int m) r else r) (map (F m) (orders d))"
    unfolding step using ff3 IH3 by simp
  also have "\<dots> = map (\<lambda>r. if o_id (F m r) \<in> o_id ` set (take n (drop (m * n) all))
             then conf (base + int m) (F m r) else F m r) (orders d)"
    by (simp only: map_map comp_def)
  also have "\<dots> = map (F (Suc m)) (orders d)"
    by (simp only: pt)
  finally have 3: "orders (fst (fold (form_complete_group now p pid all) [0..<Suc m] (d, results))) =
        map (F (Suc m)) (orders d)" .
  have 4: "snd (fold (form_complete_group now p pid all) [0..<Suc m] (d, results)) =
        results @ map (\<lambda>i. New_group pid (base + int i) (int n) disc) [0..<Suc m]"
    unfolding step using ff4 IH4 len by simp
  from 1 2 3 4 show ?case
    unfolding F_def conf_def base_def disc_def by simp
qed

lemma form_remaining_group_fields:
  fixes n k rc :: nat
  assumes "min_group_size p = int n"
  shows "products (fst (form_remaining_group now p pid all (int k) (int rc) (d, results))) = products d"
    and "group_buys (fst (form_remaining_group now p pid all (int k) (int rc) (d, results))) =
           group_buys d @
           [\<lparr> g_id = next_id (map g_id (group_buys d)), g_product_id = pid,
              current_count = int rc, target_count = int n, is_active = True,
              g_updated_at = now \<rparr>]"
    and "orders (fst (form_remaining_group now p pid all (int k) (int rc) (d, results))) =
           map (\<lambda>r. if o_id r \<in> o_id ` set (drop (k * n) all)
                     then r\<lparr> group_buy_id := next_id (map g_id (group_buys d)) \<rparr>
                     else r) (orders d)"
    and "snd (form_remaining_group now p pid all (int k) (int rc) (d, results)) =
           results @ [New_active_group pid (next_id (map g_id (group_buys d))) (int rc) (int n)]"
proof -
  have idx: "nat (int k * int n) = k * n" by (simp add: nat_mult_distrib)
  show "products (fst (form_remaining_group now p pid all (int k) (int rc) (d, results))) = products d"
    by (simp add: form_remaining_group_def create_group_buy_eq assms fold_move_fields Let_def)
  show "group_buys (fst (form_remaining_group now p pid all (int k) (int rc) (d, results))) =
           group_buys d @
           [\<lparr> g_id = next_id (map g_id (group_buys d)), g_product_id = pid,
              current_count = int rc, target_count = int n, is_active = True,
              g_updated_at = now \<rparr>]"
    by (simp add: form_remaining_group_def create_group_buy_eq assms fold_move_fields Let_def)
  show "orders (fst (form_remaining_group now p pid all (int k) (int rc) (d, results))) =
           map (\<lambda>r. if o_id r \<in> o_id ` set (drop (k * n) all)
                     then r\<lparr> group_buy_id := next_id (map g_id (group_buys d)) \<rparr>
                     else r) (orders d)"
    by (simp add: form_remaining_group_def create_group_buy_eq assms fold_move_fields idx Let_def)
  show "snd (form_remaining_group now p pid all (int k) (int rc) (d, results)) =
           results @ [New_active_group pid (next_id (map g_id (group_buys d))) (int rc) (int n)]"
    by (simp add: form_remaining_group_def create_group_buy_eq assms Let_def)
qed

lemma rearrange_product_unfold:
  fixes n :: nat
  assumes prod: "get_product d pid = Some p"
    and n: "min_group_size p = int n"
    and enough: "0 < n" "n \<le> length (collect_orders d groups)"
  shows "rearrange_product now (pid, groups) (d, results) =
     (let all = collect_orders d groups;
          s1 = fold (form_complete_group now p pid all) [0 ..< length all div n] (d, results);
          s2 = (if length all mod n > 0
                then form_remaining_group now p pid all (int (length all div n))
                       (int (length all mod n)) s1
                else s1)
      in Inr (close_groups now groups (fst s2), snd s2))"
proof -
  let ?all = "collect_orders d groups"
  have "0 < length ?all div n" using enough by (simp add: div_greater_zero_iff)
  then have pos: "0 < int (length ?all) div int n"
    by (metis of_nat_0_less_iff zdiv_int)
  have nd: "nat (int (length ?all) div int n) = length ?all div n"
    by (metis nat_int zdiv_int)
  have md: "int (length ?all) mod int n = int (length ?all mod n)"
    by (simp add: zmod_int)
  have dd: "int (length ?all) div int n = int (length ?all div n)"
    by (simp add: zdiv_int)
  show ?thesis
    using prod enough(1) pos
    by (simp add: rearrange_product_def n Let_def nd md dd)
qed

lemma rearrange_product_closed_form:
  fixes n :: nat
  assumes prod: "get_product d pid = Some p"
    and n: "min_group_size p = int n"
    and npos: "0 < n"
    and enough: "n \<le> length (collect_orders d groups)"
    and dist: "distinct (map o_id (collect_orders d groups))"
    and sub: "set groups \<subseteq> set (group_buys d)"
  shows "\<exists>d'. rearrange_product now (pid, groups) (d, results) =
            Inr (d', results @ spec_results pid n (length (collect_orders d groups))
                                 (next_id (map g_id (group_buys d)))
                                 (get_discount_percentage p (int n)))
       \<and> products d' = products d
       \<and> group_buys d' =
            map (\<lambda>g. if g_id g \<in> g_id ` set groups
                      then g\<lparr> is_active := False, g_updated_at := now \<rparr> else g) (group_buys d)
            @ spec_new_groups now pid n (length (collect_orders d groups))
                (next_id (map g_id (group_buys d)))
       \<and> orders d' =
            map (spec_order_row (collect_orders d groups) n (next_id (map g_id (group_buys d)))
                   (get_discount_percentage p (int n))) (orders d)"
proof -
  define all where "all = collect_orders d groups"
  define base where "base = next_id (map g_id (group_buys d))"
  define disc where "disc = get_discount_percentage p (int n)"
  define M where "M = length all div n"
  define R where "R = length all mod n"
  define S1 where "S1 = fold (form_complete_group now p pid all) [0 ..< M] (d, results)"
  define S2 where "S2 = (if R > 0 then form_remaining_group now p pid all (int M) (int R) S1 else S1)"
  define conf where "conf = (\<lambda>k (r::order). r\<lparr> group_buy_id := k, status := CONFIRMED,
                              discount_price := Some (unit_price r * (1 - disc / 100)) \<rparr>)"
  define F where "F = (\<lambda>r. case order_index (o_id r) all of
                    None \<Rightarrow> r
                  | Some j \<Rightarrow> if j < M * n then conf (base + int (j div n)) r else r)"
  define newg where "newg = (\<lambda>i. \<lparr> g_id = base + int i, g_product_id = pid,
                    current_count = int n, target_count = int n, is_active = False,
                    g_updated_at = now \<rparr>)"
  define close where "close = (\<lambda>g::group_buy. if g_id g \<in> g_id ` set groups
                      then g\<lparr> is_active := False, g_updated_at := now \<rparr> else g)"
  have Mn: "M * n \<le> length all" by (simp add: M_def)
  have split: "length all = M * n + R" by (simp add: M_def R_def)
  have res: "rearrange_product now (pid, groups) (d, results) =
               Inr (close_groups now groups (fst S2), snd S2)"
    using rearrange_product_unfold [OF prod n npos enough, of now results]
    by (simp add: Let_def S2_def S1_def M_def R_def all_def)
  note loop = complete_loop_fields [OF n dist [folded all_def] Mn, of now pid d results,
      folded S1_def]
  have l1: "products (fst S1) = products d"
    and l2: "group_buys (fst S1) = group_buys d @ map newg [0..<M]"
    and l3: "orders (fst S1) = map F (orders d)"
    and l4: "snd S1 = results @ map (\<lambda>i. New_group pid (base + int i) (int n) disc) [0..<M]"
    using loop unfolding F_def conf_def newg_def base_def disc_def by simp_all
  have key: "next_id (map g_id (group_buys (fst S1))) = base + int M"
    using next_id_run [of "map g_id (group_buys d)" M]
    by (simp add: l2 base_def comp_def newg_def)
  note rem = form_remaining_group_fields [OF n, of now pid all M R "fst S1" "snd S1",
      unfolded key prod.collapse]
  have oidF: "\<And>r. o_id (F r) = o_id r"
    by (simp add: F_def conf_def split: option.splits)
  text \<open>The groups.\<close>
  have g2: "group_buys (fst S2) = group_buys d @ spec_new_groups now pid n (length all) base"
  proof (cases "R > 0")
    case True
    then have "S2 = form_remaining_group now p pid all (int M) (int R) S1"
      by (simp add: S2_def)
    then show ?thesis
      using rem(2) True
      by (simp add: l2 spec_new_groups_def newg_def M_def R_def)
  next
    case False
    then show ?thesis
      by (simp add: S2_def l2 spec_new_groups_def newg_def M_def R_def)
  qed
  have fresh: "g_id g \<notin> g_id ` set groups" if "g \<in> set (spec_new_groups now pid n (length all) base)" for g
  proof -
    have "base \<le> g_id g" using that by (auto simp: spec_new_groups_def split: if_splits)
    moreover have "\<forall>x\<in>set groups. g_id x < base"
      using sub next_id_fresh [of _ "map g_id (group_buys d)"] by (auto simp: base_def)
    ultimately show ?thesis by force
  qed
  have "map close (spec_new_groups now pid n (length all) base) = spec_new_groups now pid n (length all) base"
    by (rule map_idI) (simp add: close_def fresh)
  then have G: "group_buys (close_groups now groups (fst S2)) =
      map close (group_buys d) @ spec_new_groups now pid n (length all) base"
    by (simp add: close_groups_fields g2 close_def)
  text \<open>The orders.\<close>
  have o2: "orders (fst S2) = map (spec_order_row all n base disc) (orders d)"
  proof (cases "R > 0")
    case True
    then have "S2 = form_remaining_group now p pid all (int M) (int R) S1"
      by (simp add: S2_def)
    then have "orders (fst S2) =
        map (\<lambda>r. if o_id r \<in> o_id ` set (drop (M * n) all)
                  then r\<lparr> group_buy_id := base + int M \<rparr> else r) (map F (orders d))"
      using rem(3) by (simp add: l3)
    also have "\<dots> = map (\<lambda>r. if o_id (F r) \<in> o_id ` set (drop (M * n) all)
                  then (F r)\<lparr> group_buy_id := base + int M \<rparr> else F r) (orders d)"
      by (simp only: map_map comp_def)
    also have "\<dots> = map (spec_order_row all n base disc) (orders d)"
    proof (rule map_cong [OF refl])
      fix r
      show "(if o_id (F r) \<in> o_id ` set (drop (M * n) all)
             then (F r)\<lparr> group_buy_id := base + int M \<rparr> else F r) = spec_order_row all n base disc r"
      proof (cases "order_index (o_id r) all")
        case None
        then have "o_id r \<notin> o_id ` set (drop (M * n) all)"
          using order_index_drop [OF dist [folded all_def], of "o_id r" "M * n"] by simp
        with None show ?thesis by (simp add: oidF) (simp add: F_def spec_order_row_def)
      next
        case (Some j)
        have in_iff: "o_id r \<in> o_id ` set (drop (M * n) all) \<longleftrightarrow> M * n \<le> j"
          using order_index_drop [OF dist [folded all_def], of "o_id r" "M * n"] Some by simp
        show ?thesis
          using Some in_iff
          by (simp add: oidF) (auto simp: F_def spec_order_row_def conf_def M_def)
      qed
    qed
    finally show ?thesis .
  next
    case False
    then have full: "length all = M * n" using split by simp
    have "map F (orders d) = map (spec_order_row all n base disc) (orders d)"
    proof (rule map_cong [OF refl])
      fix r
      show "F r = spec_order_row all n base disc r"
      proof (cases "order_index (o_id r) all")
        case None
        then show ?thesis by (simp add: F_def spec_order_row_def)
      next
        case (Some j)
        from order_index_Some [OF Some] full have "j < M * n" by simp
        then show ?thesis using Some
          by (simp add: F_def spec_order_row_def conf_def M_def)
      qed
    qed
    with False show ?thesis by (simp add: S2_def l3)
  qed
  text \<open>The results and the products.\<close>
  have r2: "snd S2 = results @ spec_results pid n (length all) base disc"
  proof (cases "R > 0")
    case True
    then have "S2 = form_remaining_group now p pid all (int M) (int R) S1"
      by (simp add: S2_def)
    then show ?thesis
      using rem(4) True
      by (simp add: l4 spec_results_def M_def R_def)
  next
    case False
    then show ?thesis by (simp add: S2_def l4 spec_results_def M_def R_def)
  qed
  have p2: "products (fst S2) = products d"
  proof (cases "R > 0")
    case True
    then have "S2 = form_remaining_group now p pid all (int M) (int R) S1"
      by (simp add: S2_def)
    then show ?thesis
      using rem(1) by (simp add: l1)
  next
    case False
    then show ?thesis by (simp add: S2_def l1)
  qed
  show ?thesis
    unfolding res
    using G o2 r2 p2
    by (simp add: close_groups_fields all_def base_def disc_def close_def)
qed

text \<open>With fewer orders than \<open>min_group_size\<close> the body of the loop is skipped.\<close>

lemma rearrange_product_skip:
  assumes "get_product d pid = Some p"
    and "int (length (collect_orders d groups)) < min_group_size p"
  shows "rearrange_product now (pid, groups) (d, results) = Inr (d, results)"
proof -
  have "min_group_size p \<noteq> 0" using assms(2) by auto
  moreover have "int (length (collect_orders d groups)) div min_group_size p = 0"
    using assms(2) by (simp add: div_pos_pos_trivial)
  ultimately show ?thesis
    using assms(1) by (simp add: rearrange_product_def Let_def)
qed

lemma spec_new_groups_product:
  "g \<in> set (spec_new_groups now pid n t base) \<Longrightarrow> g_product_id g = pid"
  by (auto simp: spec_new_groups_def split: if_splits)

subsection \<open>The dictionary of groups by product\<close>

lemma fold_map_default_keys:
  "fst ` set (fold (\<lambda>g pg. AList.map_default (g_product_id g) [g] (\<lambda>gs. gs @ [g]) pg) gs acc) =
     fst ` set acc \<union> g_product_id ` set gs"
  by (induction gs arbitrary: acc) (auto simp: dom_map_default)

lemma fold_map_default_distinct:
  "distinct (map fst acc) \<Longrightarrow>
   distinct (map fst (fold (\<lambda>g pg. AList.map_default (g_product_id g) [g] (\<lambda>gs. gs @ [g]) pg) gs acc))"
  by (induction gs arbitrary: acc) (simp_all add: distinct_map_default)

lemma fold_map_default_lookup:
  "map_of (fold (\<lambda>g pg. AList.map_default (g_product_id g) [g] (\<lambda>gs. gs @ [g]) pg) gs acc) pid =
     (case map_of acc pid of
        None \<Rightarrow> (if filter (\<lambda>g. g_product_id g = pid) gs = [] then None
                  else Some (filter (\<lambda>g. g_product_id g = pid) gs))
      | Some l \<Rightarrow> Some (l @ filter (\<lambda>g. g_product_id g = pid) gs))"
proof (induction gs arbitrary: acc)
  case Nil
  then show ?case by (simp split: option.splits)
next
  case (Cons g gs)
  show ?case
    by (simp add: Cons.IH map_of_map_default split: option.splits)
qed

lemma product_groups_entry:
  assumes "(pid, groups) \<in> set (product_groups gs)"
  shows "groups = filter (\<lambda>g. g_product_id g = pid) gs" and "groups \<noteq> []"
proof -
  have "distinct (map fst (product_groups gs))"
    unfolding product_groups_def by (rule fold_map_default_distinct) simp
  with assms have "map_of (product_groups gs) pid = Some groups" by simp
  then have "(if filter (\<lambda>g. g_product_id g = pid) gs = [] then None
              else Some (filter (\<lambda>g. g_product_id g = pid) gs)) = Some groups"
    unfolding product_groups_def fold_map_default_lookup by simp
  then show "groups = filter (\<lambda>g. g_product_id g = pid) gs" and "groups \<noteq> []"
    by (auto split: if_splits)
qed

lemma product_groups_distinct: "distinct (map fst (product_groups gs))"
  unfolding product_groups_def by (rule fold_map_default_distinct) simp

subsection \<open>One product, and what it leaves alone\<close>

lemma spec_order_row_id [simp]: "o_id (spec_order_row all_orders n base disc r) = o_id r"
  by (simp add: spec_order_row_def split: option.splits)

lemma spec_order_row_other:
  "o_id r \<notin> o_id ` set all_orders \<Longrightarrow> spec_order_row all_orders n base disc r = r"
  using order_index_None [of "o_id r" all_orders] by (simp add: spec_order_row_def)

lemma spec_order_row_group:
  "o_id r \<in> o_id ` set all_orders \<Longrightarrow> base \<le> group_buy_id (spec_order_row all_orders n base disc r)"
  using order_index_None [of "o_id r" all_orders]
  by (cases "order_index (o_id r) all_orders") (simp_all add: spec_order_row_def)

lemma spec_new_groups_ids:
  "map g_id (spec_new_groups now pid n t base) =
     map (\<lambda>i. base + int i) [0 ..< t div n + (if t mod n > 0 then 1 else 0)]"
  by (simp add: spec_new_groups_def comp_def)

lemma rearrange_product_step:
  assumes prod: "get_product s pid = Some p"
    and mpos: "0 < min_group_size p"
    and dord: "distinct (map o_id (orders s))"
    and dgroups: "distinct (map g_id groups)"
    and sub: "set groups \<subseteq> set (group_buys s)"
  shows "\<exists>s' res'. rearrange_product now (pid, groups) (s, res) = Inr (s', res')
     \<and> products s' = products s
     \<and> (if nat (min_group_size p) \<le> length (collect_orders s groups)
        then group_buys s' =
               map (\<lambda>g. if g_id g \<in> g_id ` set groups
                         then g\<lparr> is_active := False, g_updated_at := now \<rparr> else g) (group_buys s)
               @ spec_new_groups now pid (nat (min_group_size p)) (length (collect_orders s groups))
                   (next_id (map g_id (group_buys s)))
           \<and> orders s' =
               map (spec_order_row (collect_orders s groups) (nat (min_group_size p))
                      (next_id (map g_id (group_buys s)))
                      (get_discount_percentage p (min_group_size p))) (orders s)
        else s' = s)"
proof (cases "nat (min_group_size p) \<le> length (collect_orders s groups)")
  case True
  define n where "n = nat (min_group_size p)"
  have n: "min_group_size p = int n" "0 < n" using mpos by (simp_all add: n_def)
  have enough: "n \<le> length (collect_orders s groups)" using True by (simp add: n_def)
  have dist: "distinct (map o_id (collect_orders s groups))"
    by (rule distinct_collect_orders [OF dord dgroups])
  from rearrange_product_closed_form [OF prod n enough dist sub, of now res]
  show ?thesis using True unfolding n_def [symmetric] n(1) by auto
next
  case False
  then have "int (length (collect_orders s groups)) < min_group_size p" by linarith
  from rearrange_product_skip [OF prod this, where now = now and results = res] False
  show ?thesis by simp
qed

lemma filter_map_frame:
  "(\<And>x. x \<in> set xs \<Longrightarrow> (P (f x) \<longleftrightarrow> P x) \<and> (P x \<longrightarrow> f x = x)) \<Longrightarrow>
   filter P (map f xs) = filter P xs"
  by (induction xs) auto

lemma rearrange_step_frame:
  fixes n :: nat
  assumes G: "group_buys s' =
               map (\<lambda>g. if g_id g \<in> g_id ` set groups
                         then g\<lparr> is_active := False, g_updated_at := now \<rparr> else g) (group_buys s)
               @ spec_new_groups now pid n (length (collect_orders s groups))
                   (next_id (map g_id (group_buys s)))"
    and O: "orders s' =
               map (spec_order_row (collect_orders s groups) n (next_id (map g_id (group_buys s))) disc)
                 (orders s)"
    and dord: "distinct (map o_id (orders s))"
    and dgs: "distinct (map g_id (group_buys s))"
    and sub: "set groups \<subseteq> set (group_buys s)"
    and own: "\<forall>g\<in>set groups. g_product_id g = pid"
  shows "map o_id (orders s') = map o_id (orders s)"
    and "distinct (map g_id (group_buys s'))"
    and "next_id (map g_id (group_buys s)) \<le> next_id (map g_id (group_buys s'))"
    and "pid' \<noteq> pid \<Longrightarrow> filter (\<lambda>g. g_product_id g = pid') (group_buys s') =
                            filter (\<lambda>g. g_product_id g = pid') (group_buys s)"
    and "filter (\<lambda>g. g_product_id g = pid) (group_buys s') =
           map (\<lambda>g. if g_id g \<in> g_id ` set groups
                     then g\<lparr> is_active := False, g_updated_at := now \<rparr> else g)
             (filter (\<lambda>g. g_product_id g = pid) (group_buys s))
           @ spec_new_groups now pid n (length (collect_orders s groups))
               (next_id (map g_id (group_buys s)))"
    and "i \<in> g_id ` set (group_buys s) \<Longrightarrow> i \<notin> g_id ` set groups \<Longrightarrow>
           get_orders_by_group s' i = get_orders_by_group s i"
    and "r \<in> set (orders s) \<Longrightarrow> group_buy_id r \<notin> g_id ` set groups \<Longrightarrow> r \<in> set (orders s')"
    and "r \<in> set (collect_orders s groups) \<Longrightarrow>
           spec_order_row (collect_orders s groups) n (next_id (map g_id (group_buys s))) disc r
             \<in> set (orders s')
           \<and> next_id (map g_id (group_buys s))
               \<le> group_buy_id (spec_order_row (collect_orders s groups) n
                                  (next_id (map g_id (group_buys s))) disc r)"
proof -
  define all where "all = collect_orders s groups"
  define base where "base = next_id (map g_id (group_buys s))"
  define close where "close = (\<lambda>g::group_buy. if g_id g \<in> g_id ` set groups
                      then g\<lparr> is_active := False, g_updated_at := now \<rparr> else g)"
  define new where "new = spec_new_groups now pid n (length all) base"
  note G' = G [folded all_def base_def close_def, folded new_def]
  note O' = O [folded all_def base_def]
  have cid: "\<And>g. g_id (close g) = g_id g" and cprod: "\<And>g. g_product_id (close g) = g_product_id g"
    by (simp_all add: close_def)
  have allset: "set all = {r \<in> set (orders s). group_buy_id r \<in> g_id ` set groups}"
    unfolding all_def by (rule set_collect_orders)
  have inj: "inj_on o_id (set (orders s))" using dord by (simp add: distinct_map)
  have notin: "\<And>r. r \<in> set (orders s) \<Longrightarrow> group_buy_id r \<notin> g_id ` set groups \<Longrightarrow>
                 o_id r \<notin> o_id ` set all"
  proof
    fix r assume r: "r \<in> set (orders s)" "group_buy_id r \<notin> g_id ` set groups"
      and "o_id r \<in> o_id ` set all"
    then obtain r' where r': "r' \<in> set all" "o_id r' = o_id r" by auto
    with allset have "r' \<in> set (orders s)" "group_buy_id r' \<in> g_id ` set groups" by auto
    with inj r r'(2) have "r' = r" by (auto dest: inj_onD)
    with \<open>group_buy_id r' \<in> g_id ` set groups\<close> r(2) show False by simp
  qed
  show "map o_id (orders s') = map o_id (orders s)"
    unfolding O' by (simp add: comp_def)
  have newids: "map g_id new = map (\<lambda>i. base + int i)
           [0 ..< length all div n + (if length all mod n > 0 then 1 else 0)]"
    unfolding new_def by (rule spec_new_groups_ids)
  have old_lt: "\<And>i. i \<in> g_id ` set (group_buys s) \<Longrightarrow> i < base"
    unfolding base_def by (rule next_id_fresh) simp
  have new_ge: "\<And>i. i \<in> set (map g_id new) \<Longrightarrow> base \<le> i"
    unfolding newids by auto
  have dnew: "distinct (map g_id new)"
    unfolding newids by (simp add: distinct_map inj_on_def)
  have "map g_id (group_buys s') = map g_id (group_buys s) @ map g_id new"
    unfolding G' by (simp add: comp_def cid)
  moreover have "set (map g_id (group_buys s)) \<inter> set (map g_id new) = {}"
    using old_lt new_ge by fastforce
  ultimately show "distinct (map g_id (group_buys s'))"
    using dgs dnew by simp
  have "fold max (map g_id (group_buys s) @ map g_id new) 0
          = fold max (map g_id new) (fold max (map g_id (group_buys s)) 0)" by simp
  also have "\<dots> \<ge> fold max (map g_id (group_buys s)) 0" by (rule fold_max_ge)
  finally show "next_id (map g_id (group_buys s)) \<le> next_id (map g_id (group_buys s'))"
    using \<open>map g_id (group_buys s') = map g_id (group_buys s) @ map g_id new\<close>
    by (simp add: next_id_def)
  have newprod: "\<And>g. g \<in> set new \<Longrightarrow> g_product_id g = pid"
    unfolding new_def by (rule spec_new_groups_product)
  have fmap: "\<And>q. filter (\<lambda>g. g_product_id g = q) (map close (group_buys s)) =
               map close (filter (\<lambda>g. g_product_id g = q) (group_buys s))"
    by (simp add: filter_map comp_def cprod)
  have owned: "\<And>g. g \<in> set (group_buys s) \<Longrightarrow> g_id g \<in> g_id ` set groups \<Longrightarrow> g_product_id g = pid"
  proof -
    fix g assume g: "g \<in> set (group_buys s)" "g_id g \<in> g_id ` set groups"
    then obtain g' where g': "g' \<in> set groups" "g_id g' = g_id g" by auto
    with sub have "g' \<in> set (group_buys s)" by auto
    with dgs g(1) g'(2) have "g' = g" by (auto simp: distinct_map dest: inj_onD)
    with g'(1) own show "g_product_id g = pid" by simp
  qed
  show "filter (\<lambda>g. g_product_id g = pid') (group_buys s') =
          filter (\<lambda>g. g_product_id g = pid') (group_buys s)" if ne: "pid' \<noteq> pid"
  proof -
    have "filter (\<lambda>g. g_product_id g = pid') new = []"
      using newprod ne by (auto simp: filter_empty_conv)
    moreover have "map close (filter (\<lambda>g. g_product_id g = pid') (group_buys s)) =
                   filter (\<lambda>g. g_product_id g = pid') (group_buys s)"
    proof (rule map_idI)
      fix g assume "g \<in> set (filter (\<lambda>g. g_product_id g = pid') (group_buys s))"
      then have "g \<in> set (group_buys s)" "g_product_id g \<noteq> pid" using ne by auto
      with owned have "g_id g \<notin> g_id ` set groups" by blast
      then show "close g = g" by (simp add: close_def)
    qed
    ultimately show ?thesis unfolding G' by (simp add: fmap)
  qed
  have "filter (\<lambda>g. g_product_id g = pid) new = new"
    using newprod by (simp add: filter_id_conv)
  then show "filter (\<lambda>g. g_product_id g = pid) (group_buys s') =
           map (\<lambda>g. if g_id g \<in> g_id ` set groups
                     then g\<lparr> is_active := False, g_updated_at := now \<rparr> else g)
             (filter (\<lambda>g. g_product_id g = pid) (group_buys s))
           @ spec_new_groups now pid n (length (collect_orders s groups))
               (next_id (map g_id (group_buys s)))"
    unfolding G' by (simp add: fmap) (simp add: close_def new_def all_def base_def)
  show "get_orders_by_group s' i = get_orders_by_group s i"
    if i: "i \<in> g_id ` set (group_buys s)" "i \<notin> g_id ` set groups"
  proof -
    have "filter (\<lambda>r. group_buy_id r = i) (map (spec_order_row all n base disc) (orders s)) =
          filter (\<lambda>r. group_buy_id r = i) (orders s)"
    proof (rule filter_map_frame)
      fix r assume r: "r \<in> set (orders s)"
      show "(group_buy_id (spec_order_row all n base disc r) = i \<longleftrightarrow> group_buy_id r = i)
            \<and> (group_buy_id r = i \<longrightarrow> spec_order_row all n base disc r = r)"
      proof (cases "group_buy_id r \<in> g_id ` set groups")
        case False
        with r have "spec_order_row all n base disc r = r"
          by (intro spec_order_row_other notin)
        then show ?thesis by simp
      next
        case True
        with r allset have "o_id r \<in> o_id ` set all" by auto
        then have "base \<le> group_buy_id (spec_order_row all n base disc r)"
          by (rule spec_order_row_group)
        moreover have "i < base" using i(1) by (rule old_lt)
        ultimately show ?thesis using True i(2) by auto
      qed
    qed
    then show ?thesis by (simp add: get_orders_by_group_def O')
  qed
  show "r \<in> set (orders s')" if r: "r \<in> set (orders s)" "group_buy_id r \<notin> g_id ` set groups"
  proof -
    have "spec_order_row all n base disc r = r"
      using r by (intro spec_order_row_other notin)
    then show ?thesis unfolding O' using r(1) by (metis imageI set_map)
  qed
  show "spec_order_row (collect_orders s groups) n (next_id (map g_id (group_buys s))) disc r
             \<in> set (orders s')
           \<and> next_id (map g_id (group_buys s))
               \<le> group_buy_id (spec_order_row (collect_orders s groups) n
                                  (next_id (map g_id (group_buys s))) disc r)"
    if r: "r \<in> set (collect_orders s groups)"
  proof -
    from r allset have "r \<in> set (orders s)" "o_id r \<in> o_id ` set all" by (auto simp: all_def)
    then show ?thesis
      unfolding O' all_def [symmetric] base_def [symmetric]
      using spec_order_row_group [of r all base n disc] by simp
  qed
qed

subsection \<open>The loop over the products\<close>

lemma rearrange_loop:
  assumes dord: "distinct (map o_id (orders s))"
    and dgs: "distinct (map g_id (group_buys s))"
    and dk: "distinct (map fst es)"
    and ent: "\<forall>pid groups. (pid, groups) \<in> set es \<longrightarrow>
                groups = filter (\<lambda>g. g_product_id g = pid) (get_incomplete_groups s)"
    and pr: "\<forall>pid groups. (pid, groups) \<in> set es \<longrightarrow>
                (\<exists>p. get_product s pid = Some p \<and> 0 < min_group_size p)"
  shows "\<exists>s' res'. fold_err (rearrange_product now) es (s, res) = Inr (s', res')
     \<and> products s' = products s
     \<and> map o_id (orders s') = map o_id (orders s)
     \<and> distinct (map g_id (group_buys s'))
     \<and> (\<forall>pid. pid \<notin> fst ` set es \<longrightarrow>
           filter (\<lambda>g. g_product_id g = pid) (group_buys s') =
           filter (\<lambda>g. g_product_id g = pid) (group_buys s))
     \<and> (\<forall>r\<in>set (orders s).
           (\<forall>pid groups. (pid, groups) \<in> set es \<longrightarrow> group_buy_id r \<notin> g_id ` set groups) \<longrightarrow>
           r \<in> set (orders s'))
     \<and> (\<forall>pid groups p. (pid, groups) \<in> set es \<and> get_product s pid = Some p
           \<and> nat (min_group_size p) \<le> length (collect_orders s groups) \<longrightarrow>
           (\<exists>base. next_id (map g_id (group_buys s)) \<le> base
              \<and> filter (\<lambda>g. g_product_id g = pid) (group_buys s') =
                  map (\<lambda>g. if g_id g \<in> g_id ` set groups
                            then g\<lparr> is_active := False, g_updated_at := now \<rparr> else g)
                    (filter (\<lambda>g. g_product_id g = pid) (group_buys s))
                  @ spec_new_groups now pid (nat (min_group_size p))
                      (length (collect_orders s groups)) base
              \<and> (\<forall>r\<in>set (collect_orders s groups).
                    spec_order_row (collect_orders s groups) (nat (min_group_size p)) base
                      (get_discount_percentage p (min_group_size p)) r \<in> set (orders s'))))"
  using assms
proof (induction es arbitrary: s res)
  case Nil
  then show ?case by simp
next
  case (Cons e es)
  note dord = Cons.prems(1) and dgs = Cons.prems(2) and dk = Cons.prems(3)
    and ent = Cons.prems(4) [rule_format] and pr = Cons.prems(5) [rule_format]
  obtain pid0 groups0 where e: "e = (pid0, groups0)" by (cases e)
  have mem0: "(pid0, groups0) \<in> set (e # es)" by (simp add: e)
  from pr [OF mem0] obtain p0 where p0: "get_product s pid0 = Some p0" "0 < min_group_size p0"
    by blast
  have g0: "groups0 = filter (\<lambda>g. g_product_id g = pid0) (get_incomplete_groups s)"
    by (rule ent [OF mem0])
  have sub0: "set groups0 \<subseteq> set (group_buys s)"
    by (auto simp: g0 get_incomplete_groups_def)
  have dg0: "distinct (map g_id groups0)"
    using dgs by (simp add: g0 get_incomplete_groups_def distinct_map_filter)
  have own0: "\<forall>g\<in>set groups0. g_product_id g = pid0" by (simp add: g0)
  define n0 where "n0 = nat (min_group_size p0)"
  define all0 where "all0 = collect_orders s groups0"
  define base0 where "base0 = next_id (map g_id (group_buys s))"
  define disc0 where "disc0 = get_discount_percentage p0 (min_group_size p0)"
  define close0 where "close0 = (\<lambda>g::group_buy. if g_id g \<in> g_id ` set groups0
                      then g\<lparr> is_active := False, g_updated_at := now \<rparr> else g)"
  from rearrange_product_step [OF p0 dord dg0 sub0, of now res]
  obtain s1 res1 where
    st: "rearrange_product now (pid0, groups0) (s, res) = Inr (s1, res1)"
    and pr1: "products s1 = products s"
    and cf: "if n0 \<le> length all0
        then group_buys s1 = map close0 (group_buys s) @ spec_new_groups now pid0 n0 (length all0) base0
           \<and> orders s1 = map (spec_order_row all0 n0 base0 disc0) (orders s)
        else s1 = s"
    unfolding n0_def all0_def base0_def disc0_def close0_def by blast
  have frame: "map o_id (orders s1) = map o_id (orders s)
     \<and> distinct (map g_id (group_buys s1))
     \<and> next_id (map g_id (group_buys s)) \<le> next_id (map g_id (group_buys s1))
     \<and> (\<forall>pid'. pid' \<noteq> pid0 \<longrightarrow> filter (\<lambda>g. g_product_id g = pid') (group_buys s1) =
                            filter (\<lambda>g. g_product_id g = pid') (group_buys s))
     \<and> (\<forall>i. i \<in> g_id ` set (group_buys s) \<longrightarrow> i \<notin> g_id ` set groups0 \<longrightarrow>
           get_orders_by_group s1 i = get_orders_by_group s i)
     \<and> (\<forall>r. r \<in> set (orders s) \<longrightarrow> group_buy_id r \<notin> g_id ` set groups0 \<longrightarrow> r \<in> set (orders s1))"
  proof (cases "n0 \<le> length all0")
    case True
    with cf have G: "group_buys s1 =
               map (\<lambda>g. if g_id g \<in> g_id ` set groups0
                         then g\<lparr> is_active := False, g_updated_at := now \<rparr> else g) (group_buys s)
               @ spec_new_groups now pid0 n0 (length (collect_orders s groups0))
                   (next_id (map g_id (group_buys s)))"
      and O: "orders s1 =
               map (spec_order_row (collect_orders s groups0) n0 (next_id (map g_id (group_buys s))) disc0)
                 (orders s)"
      by (simp_all add: close0_def all0_def base0_def)
    note F = rearrange_step_frame [OF G O dord dgs sub0 own0]
    show ?thesis
      using F(1) F(2) F(3) F(4) F(6) F(7) by blast
  next
    case False
    with cf have "s1 = s" by simp
    then show ?thesis using dgs by simp
  qed
  then have f_ids: "map o_id (orders s1) = map o_id (orders s)"
    and f_dgs: "distinct (map g_id (group_buys s1))"
    and f_next: "next_id (map g_id (group_buys s)) \<le> next_id (map g_id (group_buys s1))"
    and f_other: "\<And>pid'. pid' \<noteq> pid0 \<Longrightarrow> filter (\<lambda>g. g_product_id g = pid') (group_buys s1) =
                            filter (\<lambda>g. g_product_id g = pid') (group_buys s)"
    and f_obg: "\<And>i. i \<in> g_id ` set (group_buys s) \<Longrightarrow> i \<notin> g_id ` set groups0 \<Longrightarrow>
           get_orders_by_group s1 i = get_orders_by_group s i"
    and f_ord: "\<And>r. r \<in> set (orders s) \<Longrightarrow> group_buy_id r \<notin> g_id ` set groups0 \<Longrightarrow>
           r \<in> set (orders s1)"
    by blast+
  have gp: "get_product s1 = get_product s" by (rule get_product_cong [OF pr1])
  have dord1: "distinct (map o_id (orders s1))" using dord f_ids by simp
  have dk': "distinct (map fst es)" and pid0_notin: "pid0 \<notin> fst ` set es"
    using dk by (simp_all add: e)
  have tail_ne: "\<And>pid groups. (pid, groups) \<in> set es \<Longrightarrow> pid \<noteq> pid0"
    using pid0_notin by force
  have tail_g: "\<And>pid groups. (pid, groups) \<in> set es \<Longrightarrow>
                  groups = filter (\<lambda>g. g_product_id g = pid) (get_incomplete_groups s)"
  proof -
    fix pid groups assume "(pid, groups) \<in> set es"
    then have "(pid, groups) \<in> set (e # es)" by simp
    from ent [OF this] show "groups = filter (\<lambda>g. g_product_id g = pid) (get_incomplete_groups s)" .
  qed
  have tail_ids: "\<And>pid groups i. (pid, groups) \<in> set es \<Longrightarrow> i \<in> g_id ` set groups \<Longrightarrow>
                  i \<in> g_id ` set (group_buys s) \<and> i \<notin> g_id ` set groups0"
  proof -
    fix pid groups i assume m: "(pid, groups) \<in> set es" and i: "i \<in> g_id ` set groups"
    from i obtain g where g: "g \<in> set groups" "g_id g = i" by auto
    from g(1) tail_g [OF m] have gs: "g \<in> set (group_buys s)" "g_product_id g = pid"
      by (auto simp: get_incomplete_groups_def)
    have "i \<notin> g_id ` set groups0"
    proof
      assume "i \<in> g_id ` set groups0"
      then obtain g' where g': "g' \<in> set groups0" "g_id g' = i" by auto
      with sub0 own0 have "g' \<in> set (group_buys s)" "g_product_id g' = pid0" by auto
      with dgs gs g(2) g'(2) have "g' = g" by (auto simp: distinct_map dest: inj_onD)
      with \<open>g_product_id g' = pid0\<close> gs(2) tail_ne [OF m] show False by simp
    qed
    with gs(1) g(2) show "i \<in> g_id ` set (group_buys s) \<and> i \<notin> g_id ` set groups0" by auto
  qed
  have tail_co: "\<And>pid groups. (pid, groups) \<in> set es \<Longrightarrow>
                   collect_orders s1 groups = collect_orders s groups"
  proof -
    fix pid groups assume m: "(pid, groups) \<in> set es"
    have "map (\<lambda>g. get_orders_by_group s1 (g_id g)) groups =
          map (\<lambda>g. get_orders_by_group s (g_id g)) groups"
    proof (rule map_cong [OF refl])
      fix g assume "g \<in> set groups"
      then have "g_id g \<in> g_id ` set groups" by simp
      from tail_ids [OF m this] show "get_orders_by_group s1 (g_id g) = get_orders_by_group s (g_id g)"
        using f_obg by blast
    qed
    then show "collect_orders s1 groups = collect_orders s groups"
      unfolding collect_orders_def by (rule arg_cong)
  qed
  have inc1: "\<And>pid. pid \<noteq> pid0 \<Longrightarrow>
     filter (\<lambda>g. g_product_id g = pid) (get_incomplete_groups s1) =
     filter (\<lambda>g. g_product_id g = pid) (get_incomplete_groups s)"
  proof -
    fix pid assume ne: "pid \<noteq> pid0"
    have sw: "\<And>xs. filter (\<lambda>g. g_product_id g = pid)
                  (filter (\<lambda>g. is_active g \<and> current_count g < target_count g) xs) =
               filter (\<lambda>g. is_active g \<and> current_count g < target_count g)
                  (filter (\<lambda>g. g_product_id g = pid) xs)"
      by (simp add: conj_commute)
    show "filter (\<lambda>g. g_product_id g = pid) (get_incomplete_groups s1) =
          filter (\<lambda>g. g_product_id g = pid) (get_incomplete_groups s)"
      unfolding get_incomplete_groups_def sw f_other [OF ne] ..
  qed
  have ent1: "\<forall>pid groups. (pid, groups) \<in> set es \<longrightarrow>
                groups = filter (\<lambda>g. g_product_id g = pid) (get_incomplete_groups s1)"
  proof (intro allI impI)
    fix pid groups assume m: "(pid, groups) \<in> set es"
    show "groups = filter (\<lambda>g. g_product_id g = pid) (get_incomplete_groups s1)"
      unfolding inc1 [OF tail_ne [OF m]] by (rule tail_g [OF m])
  qed
  have prs1: "\<forall>pid groups. (pid, groups) \<in> set es \<longrightarrow>
                (\<exists>p. get_product s1 pid = Some p \<and> 0 < min_group_size p)"
  proof (intro allI impI)
    fix pid groups assume "(pid, groups) \<in> set es"
    then have "(pid, groups) \<in> set (e # es)" by simp
    from pr [OF this] show "\<exists>p. get_product s1 pid = Some p \<and> 0 < min_group_size p"
      unfolding gp .
  qed
  from Cons.IH [OF dord1 f_dgs dk' ent1 prs1, where res = res1]
  obtain s' res' where
    fin: "fold_err (rearrange_product now) es (s1, res1) = Inr (s', res')"
    and i_prod: "products s' = products s1"
    and i_ids: "map o_id (orders s') = map o_id (orders s1)"
    and i_dgs: "distinct (map g_id (group_buys s'))"
    and i_other: "\<forall>pid. pid \<notin> fst ` set es \<longrightarrow>
           filter (\<lambda>g. g_product_id g = pid) (group_buys s') =
           filter (\<lambda>g. g_product_id g = pid) (group_buys s1)"
    and i_ord: "\<forall>r\<in>set (orders s1).
           (\<forall>pid groups. (pid, groups) \<in> set es \<longrightarrow> group_buy_id r \<notin> g_id ` set groups) \<longrightarrow>
           r \<in> set (orders s')"
    and i_ent: "\<forall>pid groups p. (pid, groups) \<in> set es \<and> get_product s1 pid = Some p
           \<and> nat (min_group_size p) \<le> length (collect_orders s1 groups) \<longrightarrow>
           (\<exists>base. next_id (map g_id (group_buys s1)) \<le> base
              \<and> filter (\<lambda>g. g_product_id g = pid) (group_buys s') =
                  map (\<lambda>g. if g_id g \<in> g_id ` set groups
                            then g\<lparr> is_active := False, g_updated_at := now \<rparr> else g)
                    (filter (\<lambda>g. g_product_id g = pid) (group_buys s1))
                  @ spec_new_groups now pid (nat (min_group_size p))
                      (length (collect_orders s1 groups)) base
              \<and> (\<forall>r\<in>set (collect_orders s1 groups).
                    spec_order_row (collect_orders s1 groups) (nat (min_group_size p)) base
                      (get_discount_percentage p (min_group_size p)) r \<in> set (orders s')))"
    by blast
  have c1: "fold_err (rearrange_product now) (e # es) (s, res) = Inr (s', res')"
    by (simp add: e st fin)
  have c2: "products s' = products s" using i_prod pr1 by simp
  have c3: "map o_id (orders s') = map o_id (orders s)" using i_ids f_ids by simp
  have c5: "\<forall>pid. pid \<notin> fst ` set (e # es) \<longrightarrow>
           filter (\<lambda>g. g_product_id g = pid) (group_buys s') =
           filter (\<lambda>g. g_product_id g = pid) (group_buys s)"
  proof (intro allI impI)
    fix pid assume "pid \<notin> fst ` set (e # es)"
    then have "pid \<noteq> pid0" "pid \<notin> fst ` set es" by (simp_all add: e)
    with i_other f_other show "filter (\<lambda>g. g_product_id g = pid) (group_buys s') =
           filter (\<lambda>g. g_product_id g = pid) (group_buys s)" by simp
  qed
  have c6: "\<forall>r\<in>set (orders s).
           (\<forall>pid groups. (pid, groups) \<in> set (e # es) \<longrightarrow> group_buy_id r \<notin> g_id ` set groups) \<longrightarrow>
           r \<in> set (orders s')"
  proof (intro ballI impI)
    fix r assume r: "r \<in> set (orders s)"
      and h: "\<forall>pid groups. (pid, groups) \<in> set (e # es) \<longrightarrow> group_buy_id r \<notin> g_id ` set groups"
    from h mem0 have "group_buy_id r \<notin> g_id ` set groups0" by blast
    with r have "r \<in> set (orders s1)" by (rule f_ord)
    moreover from h have "\<forall>pid groups. (pid, groups) \<in> set es \<longrightarrow> group_buy_id r \<notin> g_id ` set groups"
      by simp
    ultimately show "r \<in> set (orders s')" using i_ord by blast
  qed
  have c7: "\<exists>base. next_id (map g_id (group_buys s)) \<le> base
              \<and> filter (\<lambda>g. g_product_id g = pid) (group_buys s') =
                  map (\<lambda>g. if g_id g \<in> g_id ` set groups
                            then g\<lparr> is_active := False, g_updated_at := now \<rparr> else g)
                    (filter (\<lambda>g. g_product_id g = pid) (group_buys s))
                  @ spec_new_groups now pid (nat (min_group_size p))
                      (length (collect_orders s groups)) base
              \<and> (\<forall>r\<in>set (collect_orders s groups).
                    spec_order_row (collect_orders s groups) (nat (min_group_size p)) base
                      (get_discount_percentage p (min_group_size p)) r \<in> set (orders s'))"
    if m: "(pid, groups) \<in> set (e # es)" and p: "get_product s pid = Some p"
      and en: "nat (min_group_size p) \<le> length (collect_orders s groups)"
    for pid groups p
  proof (cases "(pid, groups) \<in> set es")
    case True
    note co = tail_co [OF True]
    from p have p1: "get_product s1 pid = Some p" by (simp add: gp)
    from en have en1: "nat (min_group_size p) \<le> length (collect_orders s1 groups)" by (simp add: co)
    from i_ent True p1 en1 obtain base where
      b: "next_id (map g_id (group_buys s1)) \<le> base"
      and g: "filter (\<lambda>g. g_product_id g = pid) (group_buys s') =
                  map (\<lambda>g. if g_id g \<in> g_id ` set groups
                            then g\<lparr> is_active := False, g_updated_at := now \<rparr> else g)
                    (filter (\<lambda>g. g_product_id g = pid) (group_buys s1))
                  @ spec_new_groups now pid (nat (min_group_size p))
                      (length (collect_orders s1 groups)) base"
      and o: "\<forall>r\<in>set (collect_orders s1 groups).
                    spec_order_row (collect_orders s1 groups) (nat (min_group_size p)) base
                      (get_discount_percentage p (min_group_size p)) r \<in> set (orders s')"
      by blast
    from b f_next have "next_id (map g_id (group_buys s)) \<le> base" by simp
    moreover note g [unfolded co f_other [OF tail_ne [OF True]]] o [unfolded co]
    ultimately show ?thesis by blast
  next
    case False
    with m have eq: "pid = pid0" "groups = groups0" by (simp_all add: e)
    from p p0 eq have pp: "p = p0" by simp
    from en have T: "n0 \<le> length all0" by (simp add: eq pp n0_def all0_def)
    with cf have G: "group_buys s1 =
               map (\<lambda>g. if g_id g \<in> g_id ` set groups0
                         then g\<lparr> is_active := False, g_updated_at := now \<rparr> else g) (group_buys s)
               @ spec_new_groups now pid0 n0 (length (collect_orders s groups0))
                   (next_id (map g_id (group_buys s)))"
      and O: "orders s1 =
               map (spec_order_row (collect_orders s groups0) n0 (next_id (map g_id (group_buys s))) disc0)
                 (orders s)"
      by (simp_all add: close0_def all0_def base0_def)
    note F = rearrange_step_frame [OF G O dord dgs sub0 own0]
    have "filter (\<lambda>g. g_product_id g = pid0) (group_buys s') =
          filter (\<lambda>g. g_product_id g = pid0) (group_buys s1)"
      using i_other pid0_notin by simp
    then have g: "filter (\<lambda>g. g_product_id g = pid0) (group_buys s') =
           map (\<lambda>g. if g_id g \<in> g_id ` set groups0
                     then g\<lparr> is_active := False, g_updated_at := now \<rparr> else g)
             (filter (\<lambda>g. g_product_id g = pid0) (group_buys s))
           @ spec_new_groups now pid0 n0 (length (collect_orders s groups0))
               (next_id (map g_id (group_buys s)))"
      using F(5) by simp
    have o: "\<forall>r\<in>set (collect_orders s groups0).
                    spec_order_row (collect_orders s groups0) n0 (next_id (map g_id (group_buys s)))
                      disc0 r \<in> set (orders s')"
    proof
      fix r assume r: "r \<in> set (collect_orders s groups0)"
      let ?r' = "spec_order_row (collect_orders s groups0) n0 (next_id (map g_id (group_buys s))) disc0 r"
      from F(8) [OF r] have in1: "?r' \<in> set (orders s1)"
        and ge: "next_id (map g_id (group_buys s)) \<le> group_buy_id ?r'" by simp_all
      have "\<forall>pid groups. (pid, groups) \<in> set es \<longrightarrow> group_buy_id ?r' \<notin> g_id ` set groups"
      proof (intro allI impI notI)
        fix pid groups assume m: "(pid, groups) \<in> set es" and i: "group_buy_id ?r' \<in> g_id ` set groups"
        from tail_ids [OF m i] have "group_buy_id ?r' \<in> set (map g_id (group_buys s))" by simp
        then have "group_buy_id ?r' < next_id (map g_id (group_buys s))" by (rule next_id_fresh)
        with ge show False by simp
      qed
      with in1 i_ord show "?r' \<in> set (orders s')" by blast
    qed
    show ?thesis
      unfolding eq pp using g o by (auto simp: n0_def disc0_def intro!: exI [of _ "next_id (map g_id (group_buys s))"])
  qed
  show ?case
    using c1 c2 c3 i_dgs c5 c6 c7 by blast
qed

lemma product_groups_mem:
  assumes "filter (\<lambda>g. g_product_id g = pid) gs \<noteq> []"
  shows "(pid, filter (\<lambda>g. g_product_id g = pid) gs) \<in> set (product_groups gs)"
proof -
  have "map_of (product_groups gs) pid = Some (filter (\<lambda>g. g_product_id g = pid) gs)"
    unfolding product_groups_def fold_map_default_lookup using assms by simp
  then show ?thesis by (rule map_of_SomeD)
qed

lemma spec_order_row_nth:
  assumes "distinct (map o_id all_orders)" "j < length all_orders"
  shows "spec_order_row all_orders n base disc (all_orders ! j) =
     (if j < (length all_orders div n) * n
      then (all_orders ! j)\<lparr> group_buy_id := base + int (j div n), status := CONFIRMED,
              discount_price := Some (unit_price (all_orders ! j) * (1 - disc / 100)) \<rparr>
      else (all_orders ! j)\<lparr> group_buy_id := base + int (length all_orders div n) \<rparr>)"
  by (simp add: spec_order_row_def order_index_nth [OF assms])

section \<open>Rearrangement forms complete groups\<close>

text \<open>
  C2. On a store with unique primary keys in which every active group with
  \<open>current_count < target_count\<close> belongs to an existing product of positive
  \<open>min_group_size\<close>, \<open>rearrange_incomplete_groups\<close> returns, and for every product that
  has at least one such group and whose orders in those groups number at least
  \<open>n = min_group_size\<close>: the orders collected are exactly the orders of those groups,
  sorted by \<open>created_at\<close> ascending; with \<open>total\<close> their number, the groups of the
  product afterwards are the old ones, the incomplete ones closed, followed by
  \<open>total div n\<close> new inactive groups with target and current count \<open>n\<close> and, if
  \<open>total mod n > 0\<close>, one new active group with target \<open>n\<close> and current count
  \<open>total mod n\<close>, all with fresh keys from some \<open>base\<close> on; the order at position
  \<open>j < (total div n) * n\<close> is in the new group number \<open>j div n\<close>, CONFIRMED, with
  \<open>discount_price = unit_price * (1 - d / 100)\<close> where \<open>d\<close> is the resolver's result for
  group size \<open>n\<close>; the remaining orders are in the new active group, status and discount
  price as they were. Orders outside the incomplete active groups are unchanged. For
  \<open>n = 4\<close> and ten pending orders: two complete groups of four and one active group of
  two.
\<close>

theorem rearrange_incomplete_groups_forms_groups:
  assumes dord: "distinct (map o_id (orders d))"
    and dgs: "distinct (map g_id (group_buys d))"
    and prods: "\<forall>g\<in>set (group_buys d). is_active g \<and> current_count g < target_count g \<longrightarrow>
                 (\<exists>p. get_product d (g_product_id g) = Some p \<and> 0 < min_group_size p)"
  shows "\<exists>res d'. rearrange_incomplete_groups d now = Inr (res, d')
     \<and> products d' = products d
     \<and> map o_id (orders d') = map o_id (orders d)
     \<and> (\<forall>r\<in>set (orders d).
           (\<forall>g\<in>set (group_buys d). is_active g \<and> current_count g < target_count g \<longrightarrow>
                group_buy_id r \<noteq> g_id g) \<longrightarrow>
           get_order d' (o_id r) = Some r)
     \<and> (\<forall>pid p n groups all_orders.
           get_product d pid = Some p \<and> min_group_size p = int n
           \<and> groups = filter (\<lambda>g. g_product_id g = pid \<and> is_active g
                                    \<and> current_count g < target_count g) (group_buys d)
           \<and> groups \<noteq> []
           \<and> all_orders = collect_orders d groups \<and> n \<le> length all_orders \<longrightarrow>
           sorted (map created_at all_orders)
           \<and> distinct (map o_id all_orders)
           \<and> set all_orders = {r \<in> set (orders d). group_buy_id r \<in> g_id ` set groups}
           \<and> (\<exists>base. next_id (map g_id (group_buys d)) \<le> base
                \<and> filter (\<lambda>g. g_product_id g = pid) (group_buys d') =
                     map (\<lambda>g. if is_active g \<and> current_count g < target_count g
                               then g\<lparr> is_active := False, g_updated_at := now \<rparr> else g)
                       (filter (\<lambda>g. g_product_id g = pid) (group_buys d))
                     @ spec_new_groups now pid n (length all_orders) base
                \<and> (\<forall>j<length all_orders.
                      get_order d' (o_id (all_orders ! j)) =
                        Some (if j < (length all_orders div n) * n
                              then (all_orders ! j)\<lparr> group_buy_id := base + int (j div n),
                                     status := CONFIRMED,
                                     discount_price :=
                                       Some (unit_price (all_orders ! j)
                                             * (1 - get_discount_percentage p (int n) / 100)) \<rparr>
                              else (all_orders ! j)\<lparr> group_buy_id :=
                                     base + int (length all_orders div n) \<rparr>))))"
proof -
  define inc where "inc = get_incomplete_groups d"
  define es where "es = product_groups inc"
  have inc_set: "\<And>g. g \<in> set inc \<longleftrightarrow>
      g \<in> set (group_buys d) \<and> is_active g \<and> current_count g < target_count g"
    by (auto simp: inc_def get_incomplete_groups_def)
  have dk: "distinct (map fst es)" unfolding es_def by (rule product_groups_distinct)
  have ent: "\<forall>pid groups. (pid, groups) \<in> set es \<longrightarrow>
                groups = filter (\<lambda>g. g_product_id g = pid) (get_incomplete_groups d)"
    using product_groups_entry(1) unfolding es_def inc_def by blast
  have pr: "\<forall>pid groups. (pid, groups) \<in> set es \<longrightarrow>
                (\<exists>p. get_product d pid = Some p \<and> 0 < min_group_size p)"
  proof (intro allI impI)
    fix pid groups assume m: "(pid, groups) \<in> set es"
    from product_groups_entry [OF m [unfolded es_def]]
    have "groups = filter (\<lambda>g. g_product_id g = pid) inc" "groups \<noteq> []" by simp_all
    then have "\<not> (\<forall>g\<in>set inc. g_product_id g \<noteq> pid)"
      by (simp add: filter_empty_conv)
    then obtain g where "g \<in> set inc" "g_product_id g = pid" by blast
    with prods inc_set show "\<exists>p. get_product d pid = Some p \<and> 0 < min_group_size p" by blast
  qed
  from rearrange_loop [OF dord dgs dk ent pr, where res = "[]" and now = now]
  obtain s' res' where
    fin: "fold_err (rearrange_product now) es (d, []) = Inr (s', res')"
    and c_prod: "products s' = products d"
    and c_ids: "map o_id (orders s') = map o_id (orders d)"
    and c_ord: "\<forall>r\<in>set (orders d).
           (\<forall>pid groups. (pid, groups) \<in> set es \<longrightarrow> group_buy_id r \<notin> g_id ` set groups) \<longrightarrow>
           r \<in> set (orders s')"
    and c_ent: "\<forall>pid groups p. (pid, groups) \<in> set es \<and> get_product d pid = Some p
           \<and> nat (min_group_size p) \<le> length (collect_orders d groups) \<longrightarrow>
           (\<exists>base. next_id (map g_id (group_buys d)) \<le> base
              \<and> filter (\<lambda>g. g_product_id g = pid) (group_buys s') =
                  map (\<lambda>g. if g_id g \<in> g_id ` set groups
                            then g\<lparr> is_active := False, g_updated_at := now \<rparr> else g)
                    (filter (\<lambda>g. g_product_id g = pid) (group_buys d))
                  @ spec_new_groups now pid (nat (min_group_size p))
                      (length (collect_orders d groups)) base
              \<and> (\<forall>r\<in>set (collect_orders d groups).
                    spec_order_row (collect_orders d groups) (nat (min_group_size p)) base
                      (get_discount_percentage p (min_group_size p)) r \<in> set (orders s')))"
    by blast
  have dord': "distinct (map o_id (orders s'))" using dord c_ids by simp
  have res: "rearrange_incomplete_groups d now =
               Inr (if inc = [] then No_incomplete_groups else Rearrangements res', s')"
  proof (cases "inc = []")
    case True
    then have "es = []" by (simp add: es_def product_groups_def)
    with fin have "s' = d" by simp
    with True show ?thesis by (simp add: rearrange_incomplete_groups_def inc_def)
  next
    case False
    then show ?thesis
      using fin by (simp add: rearrange_incomplete_groups_def inc_def [symmetric] es_def [symmetric])
  qed
  have untouched: "\<forall>r\<in>set (orders d).
           (\<forall>g\<in>set (group_buys d). is_active g \<and> current_count g < target_count g \<longrightarrow>
                group_buy_id r \<noteq> g_id g) \<longrightarrow>
           get_order s' (o_id r) = Some r"
  proof (intro ballI impI)
    fix r assume r: "r \<in> set (orders d)"
      and h: "\<forall>g\<in>set (group_buys d). is_active g \<and> current_count g < target_count g \<longrightarrow>
                group_buy_id r \<noteq> g_id g"
    have "\<forall>pid groups. (pid, groups) \<in> set es \<longrightarrow> group_buy_id r \<notin> g_id ` set groups"
    proof (intro allI impI notI)
      fix pid groups assume m: "(pid, groups) \<in> set es" and i: "group_buy_id r \<in> g_id ` set groups"
      from i obtain g where g: "g \<in> set groups" "g_id g = group_buy_id r" by auto
      from ent m have "groups = filter (\<lambda>g. g_product_id g = pid) inc" by (simp add: inc_def)
      with g(1) have "g \<in> set inc" by simp
      with inc_set h g(2) show False by auto
    qed
    with c_ord r have "r \<in> set (orders s')" by blast
    with dord' show "get_order s' (o_id r) = Some r"
      unfolding get_order_def by (rule find_distinct_key)
  qed
  have per: "sorted (map created_at all_orders)
           \<and> distinct (map o_id all_orders)
           \<and> set all_orders = {r \<in> set (orders d). group_buy_id r \<in> g_id ` set groups}
           \<and> (\<exists>base. next_id (map g_id (group_buys d)) \<le> base
                \<and> filter (\<lambda>g. g_product_id g = pid) (group_buys s') =
                     map (\<lambda>g. if is_active g \<and> current_count g < target_count g
                               then g\<lparr> is_active := False, g_updated_at := now \<rparr> else g)
                       (filter (\<lambda>g. g_product_id g = pid) (group_buys d))
                     @ spec_new_groups now pid n (length all_orders) base
                \<and> (\<forall>j<length all_orders.
                      get_order s' (o_id (all_orders ! j)) =
                        Some (if j < (length all_orders div n) * n
                              then (all_orders ! j)\<lparr> group_buy_id := base + int (j div n),
                                     status := CONFIRMED,
                                     discount_price :=
                                       Some (unit_price (all_orders ! j)
                                             * (1 - get_discount_percentage p (int n) / 100)) \<rparr>
                              else (all_orders ! j)\<lparr> group_buy_id :=
                                     base + int (length all_orders div n) \<rparr>)))"
    if p: "get_product d pid = Some p" and n: "min_group_size p = int n"
      and gr: "groups = filter (\<lambda>g. g_product_id g = pid \<and> is_active g
                                    \<and> current_count g < target_count g) (group_buys d)"
      and ne: "groups \<noteq> []"
      and al: "all_orders = collect_orders d groups" and en: "n \<le> length all_orders"
    for pid p n groups all_orders
  proof -
    have gr': "groups = filter (\<lambda>g. g_product_id g = pid) inc"
      unfolding gr inc_def get_incomplete_groups_def by (simp add: conj_commute)
    have m: "(pid, groups) \<in> set es"
      unfolding es_def gr' using ne [unfolded gr'] by (rule product_groups_mem)
    have nn: "nat (min_group_size p) = n" by (simp add: n)
    have dg: "distinct (map g_id groups)"
      using dgs unfolding gr by (simp add: distinct_map_filter)
    have dist: "distinct (map o_id all_orders)"
      unfolding al by (rule distinct_collect_orders [OF dord dg])
    have en0: "nat (min_group_size p) \<le> length (collect_orders d groups)"
      using en by (simp add: nn al)
    from c_ent [rule_format, of pid groups p] m p en0 obtain base where
      b: "next_id (map g_id (group_buys d)) \<le> base"
      and g0: "filter (\<lambda>g. g_product_id g = pid) (group_buys s') =
                  map (\<lambda>g. if g_id g \<in> g_id ` set groups
                            then g\<lparr> is_active := False, g_updated_at := now \<rparr> else g)
                    (filter (\<lambda>g. g_product_id g = pid) (group_buys d))
                  @ spec_new_groups now pid (nat (min_group_size p))
                      (length (collect_orders d groups)) base"
      and o0: "\<forall>r\<in>set (collect_orders d groups).
                    spec_order_row (collect_orders d groups) (nat (min_group_size p)) base
                      (get_discount_percentage p (min_group_size p)) r \<in> set (orders s')"
      by blast
    note g = g0 [unfolded nn, folded al]
    have o: "\<forall>r\<in>set all_orders.
                    spec_order_row all_orders n base (get_discount_percentage p (int n)) r
                      \<in> set (orders s')"
      using o0 unfolding al n by simp
    have cl: "map (\<lambda>g. if g_id g \<in> g_id ` set groups
                            then g\<lparr> is_active := False, g_updated_at := now \<rparr> else g)
                    (filter (\<lambda>g. g_product_id g = pid) (group_buys d)) =
              map (\<lambda>g. if is_active g \<and> current_count g < target_count g
                               then g\<lparr> is_active := False, g_updated_at := now \<rparr> else g)
                       (filter (\<lambda>g. g_product_id g = pid) (group_buys d))"
    proof (rule map_cong [OF refl])
      fix g assume "g \<in> set (filter (\<lambda>g. g_product_id g = pid) (group_buys d))"
      then have gm: "g \<in> set (group_buys d)" "g_product_id g = pid" by simp_all
      have "g_id g \<in> g_id ` set groups \<longleftrightarrow> is_active g \<and> current_count g < target_count g"
      proof
        assume "g_id g \<in> g_id ` set groups"
        then obtain g' where g': "g' \<in> set groups" "g_id g' = g_id g" by auto
        then have "g' \<in> set (group_buys d)" by (simp add: gr)
        with dgs gm(1) g'(2) have "g' = g" by (auto simp: distinct_map dest: inj_onD)
        with g'(1) show "is_active g \<and> current_count g < target_count g" by (simp add: gr)
      next
        assume "is_active g \<and> current_count g < target_count g"
        with gm have "g \<in> set groups" by (simp add: gr)
        then show "g_id g \<in> g_id ` set groups" by simp
      qed
      then show "(if g_id g \<in> g_id ` set groups
                  then g\<lparr> is_active := False, g_updated_at := now \<rparr> else g) =
                 (if is_active g \<and> current_count g < target_count g
                  then g\<lparr> is_active := False, g_updated_at := now \<rparr> else g)" by simp
    qed
    have rows: "\<forall>j<length all_orders.
                      get_order s' (o_id (all_orders ! j)) =
                        Some (if j < (length all_orders div n) * n
                              then (all_orders ! j)\<lparr> group_buy_id := base + int (j div n),
                                     status := CONFIRMED,
                                     discount_price :=
                                       Some (unit_price (all_orders ! j)
                                             * (1 - get_discount_percentage p (int n) / 100)) \<rparr>
                              else (all_orders ! j)\<lparr> group_buy_id :=
                                     base + int (length all_orders div n) \<rparr>)"
    proof (intro allI impI)
      fix j assume j: "j < length all_orders"
      let ?r' = "spec_order_row all_orders n base (get_discount_percentage p (int n)) (all_orders ! j)"
      from j o have "?r' \<in> set (orders s')" by simp
      with dord' have "find (\<lambda>y. o_id y = o_id ?r') (orders s') = Some ?r'"
        by (rule find_distinct_key)
      then have "get_order s' (o_id (all_orders ! j)) = Some ?r'"
        by (simp add: get_order_def)
      then show "get_order s' (o_id (all_orders ! j)) =
                        Some (if j < (length all_orders div n) * n
                              then (all_orders ! j)\<lparr> group_buy_id := base + int (j div n),
                                     status := CONFIRMED,
                                     discount_price :=
                                       Some (unit_price (all_orders ! j)
                                             * (1 - get_discount_percentage p (int n) / 100)) \<rparr>
                              else (all_orders ! j)\<lparr> group_buy_id :=
                                     base + int (length all_orders div n) \<rparr>)"
        unfolding spec_order_row_nth [OF dist j] .
    qed
    have "sorted (map created_at all_orders)" unfolding al by (rule sorted_collect_orders)
    moreover have "set all_orders = {r \<in> set (orders d). group_buy_id r \<in> g_id ` set groups}"
      unfolding al by (rule set_collect_orders)
    ultimately show ?thesis
      using dist b g [unfolded cl] rows by blast
  qed
  show ?thesis
    using res c_prod c_ids untouched per by blast
qed

theorem rearrange_incomplete_groups_forms_groups_witness:
  "distinct (map o_id (orders two_products_db))
   \<and> distinct (map g_id (group_buys two_products_db))
   \<and> map (\<lambda>g. (g_id g, g_product_id g))
        (filter (\<lambda>g. is_active g \<and> current_count g < target_count g) (group_buys two_products_db)) =
        [(1, 2), (5, 1), (2, 2), (3, 2), (6, 1), (4, 2)]
   \<and> map (\<lambda>p. (p_id p, min_group_size p)) (products two_products_db) = [(1, 2), (2, 4)]
   \<and> map o_id (collect_orders two_products_db
         (filter (\<lambda>g. g_product_id g = 2 \<and> is_active g \<and> current_count g < target_count g)
            (group_buys two_products_db))) = [2, 4, 6, 8, 1, 10, 7, 5, 3, 9]
   \<and> (\<exists>d' base. rearrange_incomplete_groups two_products_db 100 =
          Inr (Rearrangements [New_group 2 8 4 20, New_group 2 9 4 20, New_active_group 2 10 2 4,
                               New_group 1 11 2 5], d')
        \<and> next_id (map g_id (group_buys two_products_db)) \<le> base
        \<and> filter (\<lambda>g. g_product_id g = 2) (group_buys d') =
             map (\<lambda>g. if is_active g \<and> current_count g < target_count g
                       then g\<lparr> is_active := False, g_updated_at := 100 \<rparr> else g)
               (filter (\<lambda>g. g_product_id g = 2) (group_buys two_products_db))
             @ spec_new_groups 100 2 4 10 base
        \<and> map (\<lambda>g. (g_id g, g_product_id g, current_count g, target_count g, is_active g))
             (group_buys d') =
             [(1, 2, 3, 4, False), (5, 1, 1, 2, False), (2, 2, 3, 4, False),
              (3, 2, 3, 4, False), (6, 1, 1, 2, False), (4, 2, 1, 4, False),
              (7, 2, 4, 4, False), (8, 2, 4, 4, False), (9, 2, 4, 4, False),
              (10, 2, 2, 4, True), (11, 1, 2, 2, False)]
        \<and> map (\<lambda>r. (o_id r, group_buy_id r, status r, discount_price r)) (orders d') =
             [(1, 9, CONFIRMED, Some 40), (2, 8, CONFIRMED, Some 40),
              (3, 10, PENDING, None), (4, 8, CONFIRMED, Some 40),
              (5, 9, CONFIRMED, Some 40), (6, 8, CONFIRMED, Some 40),
              (7, 9, CONFIRMED, Some 40), (8, 8, CONFIRMED, Some 40),
              (9, 10, PENDING, None), (10, 9, CONFIRMED, Some 40),
              (11, 11, CONFIRMED, Some (95 / 2)), (12, 11, CONFIRMED, Some (95 / 2)),
              (13, 7, PENDING, None)])"
proof -
  let ?d = two_products_db
  let ?groups = "filter (\<lambda>g. g_product_id g = 2 \<and> is_active g \<and> current_count g < target_count g)
                   (group_buys ?d)"
  let ?all = "collect_orders ?d ?groups"
  have dord: "distinct (map o_id (orders ?d))" by code_simp
  have dgs: "distinct (map g_id (group_buys ?d))" by code_simp
  have inc: "map (\<lambda>g. (g_id g, g_product_id g))
        (filter (\<lambda>g. is_active g \<and> current_count g < target_count g) (group_buys ?d)) =
        [(1, 2), (5, 1), (2, 2), (3, 2), (6, 1), (4, 2)]" by code_simp
  have ps: "map (\<lambda>p. (p_id p, min_group_size p)) (products ?d) = [(1, 2), (2, 4)]" by code_simp
  have ids: "map o_id ?all = [2, 4, 6, 8, 1, 10, 7, 5, 3, 9]" by code_simp
  have prods: "\<forall>g\<in>set (group_buys ?d). is_active g \<and> current_count g < target_count g \<longrightarrow>
                 (\<exists>p. get_product ?d (g_product_id g) = Some p \<and> 0 < min_group_size p)"
    by (simp add: two_products_db_def stale_group_def small_group_def get_product_def
        example_product_def bulk_product_def)
  have len: "length ?all = 10" using arg_cong [OF ids, of length] by simp
  have pre: "get_product ?d 2 = Some bulk_product \<and> min_group_size bulk_product = int 4
       \<and> ?groups = ?groups \<and> ?groups \<noteq> [] \<and> ?all = ?all \<and> 4 \<le> length ?all"
    unfolding len
    by (simp add: two_products_db_def stale_group_def small_group_def get_product_def
        example_product_def bulk_product_def)
  from rearrange_incomplete_groups_forms_groups [OF dord dgs prods, of 100]
  obtain res d' where T: "rearrange_incomplete_groups ?d 100 = Inr (res, d')
     \<and> products d' = products ?d
     \<and> map o_id (orders d') = map o_id (orders ?d)
     \<and> (\<forall>r\<in>set (orders ?d).
           (\<forall>g\<in>set (group_buys ?d). is_active g \<and> current_count g < target_count g \<longrightarrow>
                group_buy_id r \<noteq> g_id g) \<longrightarrow>
           get_order d' (o_id r) = Some r)
     \<and> (\<forall>pid p n groups all_orders.
           get_product ?d pid = Some p \<and> min_group_size p = int n
           \<and> groups = filter (\<lambda>g. g_product_id g = pid \<and> is_active g
                                    \<and> current_count g < target_count g) (group_buys ?d)
           \<and> groups \<noteq> []
           \<and> all_orders = collect_orders ?d groups \<and> n \<le> length all_orders \<longrightarrow>
           sorted (map created_at all_orders)
           \<and> distinct (map o_id all_orders)
           \<and> set all_orders = {r \<in> set (orders ?d). group_buy_id r \<in> g_id ` set groups}
           \<and> (\<exists>base. next_id (map g_id (group_buys ?d)) \<le> base
                \<and> filter (\<lambda>g. g_product_id g = pid) (group_buys d') =
                     map (\<lambda>g. if is_active g \<and> current_count g < target_count g
                               then g\<lparr> is_active := False, g_updated_at := 100 \<rparr> else g)
                       (filter (\<lambda>g. g_product_id g = pid) (group_buys ?d))
                     @ spec_new_groups 100 pid n (length all_orders) base
                \<and> (\<forall>j<length all_orders.
                      get_order d' (o_id (all_orders ! j)) =
                        Some (if j < (length all_orders div n) * n
                              then (all_orders ! j)\<lparr> group_buy_id := base + int (j div n),
                                     status := CONFIRMED,
                                     discount_price :=
                                       Some (unit_price (all_orders ! j)
                                             * (1 - get_discount_percentage p (int n) / 100)) \<rparr>
                              else (all_orders ! j)\<lparr> group_buy_id :=
                                     base + int (length all_orders div n) \<rparr>))))"
    by (elim exE) (erule that)
  note E = T [THEN conjunct1]
  note per = T [THEN conjunct2, THEN conjunct2, THEN conjunct2, THEN conjunct2]
  note one = per [rule_format, OF pre, THEN conjunct2, THEN conjunct2, THEN conjunct2]
  from one obtain base where B: "next_id (map g_id (group_buys ?d)) \<le> base
                \<and> filter (\<lambda>g. g_product_id g = 2) (group_buys d') =
                     map (\<lambda>g. if is_active g \<and> current_count g < target_count g
                               then g\<lparr> is_active := False, g_updated_at := 100 \<rparr> else g)
                       (filter (\<lambda>g. g_product_id g = 2) (group_buys ?d))
                     @ spec_new_groups 100 2 4 (length ?all) base
                \<and> (\<forall>j<length ?all.
                      get_order d' (o_id (?all ! j)) =
                        Some (if j < (length ?all div 4) * 4
                              then (?all ! j)\<lparr> group_buy_id := base + int (j div 4),
                                     status := CONFIRMED,
                                     discount_price :=
                                       Some (unit_price (?all ! j)
                                             * (1 - get_discount_percentage bulk_product (int 4) / 100)) \<rparr>
                              else (?all ! j)\<lparr> group_buy_id :=
                                     base + int (length ?all div 4) \<rparr>))"
    by (elim exE) (erule that)
  note b = B [THEN conjunct1]
  note g = B [THEN conjunct2, THEN conjunct1]
  have r1: "fst (projr (rearrange_incomplete_groups ?d 100)) =
        Rearrangements [New_group 2 8 4 20, New_group 2 9 4 20, New_active_group 2 10 2 4,
                               New_group 1 11 2 5]"
    by code_simp
  have r2: "map (\<lambda>g. (g_id g, g_product_id g, current_count g, target_count g, is_active g))
             (group_buys (snd (projr (rearrange_incomplete_groups ?d 100)))) =
             [(1, 2, 3, 4, False), (5, 1, 1, 2, False), (2, 2, 3, 4, False),
              (3, 2, 3, 4, False), (6, 1, 1, 2, False), (4, 2, 1, 4, False),
              (7, 2, 4, 4, False), (8, 2, 4, 4, False), (9, 2, 4, 4, False),
              (10, 2, 2, 4, True), (11, 1, 2, 2, False)]"
    by code_simp
  have r3: "map (\<lambda>r. (o_id r, group_buy_id r, status r, discount_price r))
             (orders (snd (projr (rearrange_incomplete_groups ?d 100)))) =
             [(1, 9, CONFIRMED, Some 40), (2, 8, CONFIRMED, Some 40),
              (3, 10, PENDING, None), (4, 8, CONFIRMED, Some 40),
              (5, 9, CONFIRMED, Some 40), (6, 8, CONFIRMED, Some 40),
              (7, 9, CONFIRMED, Some 40), (8, 8, CONFIRMED, Some 40),
              (9, 10, PENDING, None), (10, 9, CONFIRMED, Some 40),
              (11, 11, CONFIRMED, Some (95 / 2)), (12, 11, CONFIRMED, Some (95 / 2)),
              (13, 7, PENDING, None)]"
    by code_simp
  have res: "res = Rearrangements [New_group 2 8 4 20, New_group 2 9 4 20, New_active_group 2 10 2 4,
                               New_group 1 11 2 5]"
    using r1 unfolding E by simp
  note E' = E [unfolded res]
  note g' = g [unfolded len]
  have r2': "map (\<lambda>g. (g_id g, g_product_id g, current_count g, target_count g, is_active g))
             (group_buys d') =
             [(1, 2, 3, 4, False), (5, 1, 1, 2, False), (2, 2, 3, 4, False),
              (3, 2, 3, 4, False), (6, 1, 1, 2, False), (4, 2, 1, 4, False),
              (7, 2, 4, 4, False), (8, 2, 4, 4, False), (9, 2, 4, 4, False),
              (10, 2, 2, 4, True), (11, 1, 2, 2, False)]"
    using r2 unfolding E by (simp only: sum.sel snd_conv)
  have r3': "map (\<lambda>r. (o_id r, group_buy_id r, status r, discount_price r)) (orders d') =
             [(1, 9, CONFIRMED, Some 40), (2, 8, CONFIRMED, Some 40),
              (3, 10, PENDING, None), (4, 8, CONFIRMED, Some 40),
              (5, 9, CONFIRMED, Some 40), (6, 8, CONFIRMED, Some 40),
              (7, 9, CONFIRMED, Some 40), (8, 8, CONFIRMED, Some 40),
              (9, 10, PENDING, None), (10, 9, CONFIRMED, Some 40),
              (11, 11, CONFIRMED, Some (95 / 2)), (12, 11, CONFIRMED, Some (95 / 2)),
              (13, 7, PENDING, None)]"
    using r3 unfolding E by (simp only: sum.sel snd_conv)
  show ?thesis
    by (intro conjI exI [of _ d'] exI [of _ base]) (fact dord dgs inc ps ids E' b g' r2' r3')+
qed

section \<open>Rearrangement of a product with too few orders\<close>





section \<open>The expiration sweep\<close>

lemma cancel_order_fields [simp]:
  "products (cancel_order x d) = products d"
  "group_buys (cancel_order x d) = group_buys d"
  "orders (cancel_order x d) =
     map (\<lambda>r. if o_id r = o_id x then r\<lparr> status := CANCELLED \<rparr> else r) (orders d)"
  by (simp_all add: cancel_order_def)

lemma fold_cancel_fields:
  "products (fold cancel_order xs d) = products d"
  "group_buys (fold cancel_order xs d) = group_buys d"
  "orders (fold cancel_order xs d) =
     map (\<lambda>r. if o_id r \<in> o_id ` set xs then r\<lparr> status := CANCELLED \<rparr> else r) (orders d)"
proof -
  show "products (fold cancel_order xs d) = products d"
    by (rule fold_keeps_field) simp
  show "group_buys (fold cancel_order xs d) = group_buys d"
    by (rule fold_keeps_field) simp
  show "orders (fold cancel_order xs d) =
     map (\<lambda>r. if o_id r \<in> o_id ` set xs then r\<lparr> status := CANCELLED \<rparr> else r) (orders d)"
    by (rule orders_fold_rewrite) simp_all
qed

lemma expire_group_Inr:
  assumes dist: "distinct (map o_id (orders d))"
    and ok: "get_orders_by_group d (g_id g) \<noteq> [] \<longrightarrow> get_product d (g_product_id g) \<noteq> None"
  shows "\<exists>d'. expire_group now g d = Inr d'
     \<and> products d' = products d
     \<and> group_buys d' =
          map (\<lambda>g'. if g_id g' = g_id g then g'\<lparr> is_active := False, g_updated_at := now \<rparr> else g')
            (group_buys d)
     \<and> orders d' =
          map (\<lambda>r. if group_buy_id r = g_id g then r\<lparr> status := CANCELLED \<rparr> else r) (orders d)"
proof -
  let ?d' = "modify_group now (g_id g) (\<lambda>g'. g'\<lparr> is_active := False \<rparr>)
               (fold cancel_order (get_orders_by_group d (g_id g)) d)"
  have "expire_group now g d = Inr ?d'"
    using ok by (auto simp: expire_group_def Let_def)
  moreover have "orders ?d' =
      map (\<lambda>r. if group_buy_id r = g_id g then r\<lparr> status := CANCELLED \<rparr> else r) (orders d)"
    unfolding modify_group_fields fold_cancel_fields get_orders_by_group_def
    by (rule map_cong [OF refl]) (simp only: id_in_group_iff [OF dist])
  ultimately show ?thesis
    by (simp add: fold_cancel_fields)
qed

lemma expire_groups_Inr:
  assumes "distinct (map o_id (orders d))"
    and "\<forall>g\<in>set gs. get_orders_by_group d (g_id g) \<noteq> [] \<longrightarrow> get_product d (g_product_id g) \<noteq> None"
  shows "\<exists>d'. fold_err (expire_group now) gs d = Inr d'
     \<and> products d' = products d
     \<and> group_buys d' =
          map (\<lambda>g'. if g_id g' \<in> g_id ` set gs
                     then g'\<lparr> is_active := False, g_updated_at := now \<rparr> else g') (group_buys d)
     \<and> orders d' =
          map (\<lambda>r. if group_buy_id r \<in> g_id ` set gs then r\<lparr> status := CANCELLED \<rparr> else r)
            (orders d)"
  using assms
proof (induction gs arbitrary: d)
  case Nil
  then show ?case by simp
next
  case (Cons g gs)
  from Cons.prems obtain d1 where e: "expire_group now g d = Inr d1"
    and p1: "products d1 = products d"
    and g1: "group_buys d1 =
          map (\<lambda>g'. if g_id g' = g_id g then g'\<lparr> is_active := False, g_updated_at := now \<rparr> else g')
            (group_buys d)"
    and o1: "orders d1 =
          map (\<lambda>r. if group_buy_id r = g_id g then r\<lparr> status := CANCELLED \<rparr> else r) (orders d)"
    using expire_group_Inr [of d g now] by auto
  have dist1: "distinct (map o_id (orders d1))"
    using Cons.prems(1) by (simp add: o1 comp_def if_distrib cong: if_cong)
  have gid: "map group_buy_id (orders d1) = map group_buy_id (orders d)"
    by (simp add: o1 comp_def if_distrib cong: if_cong)
  have "get_orders_by_group dd i = [] \<longleftrightarrow> i \<notin> set (map group_buy_id (orders dd))" for dd i
    by (auto simp: get_orders_by_group_def filter_empty_conv)
  then have same: "get_orders_by_group d1 i = [] \<longleftrightarrow> get_orders_by_group d i = []" for i
    by (simp only: gid)
  have prod1: "get_product d1 = get_product d"
    by (rule ext) (simp add: get_product_def p1)
  have ok1: "\<forall>g\<in>set gs. get_orders_by_group d1 (g_id g) \<noteq> [] \<longrightarrow> get_product d1 (g_product_id g) \<noteq> None"
    using Cons.prems(2) by (simp add: same prod1)
  from Cons.IH [OF dist1 ok1] obtain d' where r: "fold_err (expire_group now) gs d1 = Inr d'"
    and p': "products d' = products d1"
    and g': "group_buys d' =
          map (\<lambda>g'. if g_id g' \<in> g_id ` set gs
                     then g'\<lparr> is_active := False, g_updated_at := now \<rparr> else g') (group_buys d1)"
    and o': "orders d' =
          map (\<lambda>r. if group_buy_id r \<in> g_id ` set gs then r\<lparr> status := CANCELLED \<rparr> else r)
            (orders d1)"
    by blast
  have "fold_err (expire_group now) (g # gs) d = Inr d'" by (simp add: e r)
  moreover have "group_buys d' =
          map (\<lambda>g'. if g_id g' \<in> g_id ` set (g # gs)
                     then g'\<lparr> is_active := False, g_updated_at := now \<rparr> else g') (group_buys d)"
    unfolding g' g1 by (simp add: comp_def) 
  moreover have "orders d' =
          map (\<lambda>r. if group_buy_id r \<in> g_id ` set (g # gs) then r\<lparr> status := CANCELLED \<rparr> else r)
            (orders d)"
    unfolding o' o1 by (simp add: comp_def)
  ultimately show ?case using p' p1 by simp
qed

text \<open>
  C8. The sweep selects exactly the groups that are active, were last updated before
  \<open>now\<close> minus seven days and have \<open>current_count < target_count\<close>. With none selected
  it returns at once and changes nothing. Otherwise, for each selected group every
  order linked to it gets status CANCELLED and the group is marked inactive, nothing
  else changes, and the rearrangement is then run once, on that store; its outcome is
  the outcome of the sweep. Order keys are unique, and the product row of an
  expired group with orders exists (the refund message names the product).
\<close>

theorem check_expired_groups_sweeps:
  assumes dist: "distinct (map o_id (orders d))"
    and named: "\<forall>g\<in>set (get_expired_groups d (now - 7 * 86400)).
                  get_orders_by_group d (g_id g) \<noteq> [] \<longrightarrow> get_product d (g_product_id g) \<noteq> None"
  shows "get_expired_groups d (now - 7 * 86400) =
           filter (\<lambda>g. is_active g \<and> g_updated_at g < now - 7 * 86400
                        \<and> current_count g < target_count g) (group_buys d)
     \<and> (get_expired_groups d (now - 7 * 86400) = [] \<longrightarrow>
           check_expired_groups d now = Inr (No_expired_groups, d))
     \<and> (get_expired_groups d (now - 7 * 86400) \<noteq> [] \<longrightarrow>
          (\<exists>d1. products d1 = products d
             \<and> group_buys d1 =
                  map (\<lambda>g. if g_id g \<in> g_id ` set (get_expired_groups d (now - 7 * 86400))
                            then g\<lparr> is_active := False, g_updated_at := now \<rparr> else g) (group_buys d)
             \<and> orders d1 =
                  map (\<lambda>r. if group_buy_id r \<in> g_id ` set (get_expired_groups d (now - 7 * 86400))
                            then r\<lparr> status := CANCELLED \<rparr> else r) (orders d)
             \<and> check_expired_groups d now =
                  (case rearrange_incomplete_groups d1 now of
                     Inl e \<Rightarrow> Inl e
                   | Inr (res, d2) \<Rightarrow>
                       Inr (Expired_groups (int (length (get_expired_groups d (now - 7 * 86400)))) res,
                            d2))))"
proof (intro conjI impI)
  show "get_expired_groups d (now - 7 * 86400) =
           filter (\<lambda>g. is_active g \<and> g_updated_at g < now - 7 * 86400
                        \<and> current_count g < target_count g) (group_buys d)"
    by (simp add: get_expired_groups_def)
next
  assume "get_expired_groups d (now - 7 * 86400) = []"
  then show "check_expired_groups d now = Inr (No_expired_groups, d)"
    by (simp add: check_expired_groups_def expiration_days_def)
next
  assume ne: "get_expired_groups d (now - 7 * 86400) \<noteq> []"
  from expire_groups_Inr [OF dist named, of now]
  obtain d1 where e: "fold_err (expire_group now) (get_expired_groups d (now - 7 * 86400)) d = Inr d1"
    and f: "products d1 = products d"
      "group_buys d1 =
          map (\<lambda>g'. if g_id g' \<in> g_id ` set (get_expired_groups d (now - 7 * 86400))
                     then g'\<lparr> is_active := False, g_updated_at := now \<rparr> else g') (group_buys d)"
      "orders d1 =
          map (\<lambda>r. if group_buy_id r \<in> g_id ` set (get_expired_groups d (now - 7 * 86400))
                    then r\<lparr> status := CANCELLED \<rparr> else r) (orders d)"
    by blast
  have "check_expired_groups d now =
                  (case rearrange_incomplete_groups d1 now of
                     Inl e \<Rightarrow> Inl e
                   | Inr (res, d2) \<Rightarrow>
                       Inr (Expired_groups (int (length (get_expired_groups d (now - 7 * 86400)))) res,
                            d2))"
    unfolding check_expired_groups_def expiration_days_def Let_def
    by (simp only: ne e if_False sum.case)
  with f show "\<exists>d1. products d1 = products d
             \<and> group_buys d1 =
                  map (\<lambda>g. if g_id g \<in> g_id ` set (get_expired_groups d (now - 7 * 86400))
                            then g\<lparr> is_active := False, g_updated_at := now \<rparr> else g) (group_buys d)
             \<and> orders d1 =
                  map (\<lambda>r. if group_buy_id r \<in> g_id ` set (get_expired_groups d (now - 7 * 86400))
                            then r\<lparr> status := CANCELLED \<rparr> else r) (orders d)
             \<and> check_expired_groups d now =
                  (case rearrange_incomplete_groups d1 now of
                     Inl e \<Rightarrow> Inl e
                   | Inr (res, d2) \<Rightarrow>
                       Inr (Expired_groups (int (length (get_expired_groups d (now - 7 * 86400)))) res,
                            d2))"
    by blast
qed

theorem check_expired_groups_sweeps_witness:
  "distinct (map o_id (orders one_pending_db))
   \<and> get_expired_groups one_pending_db (1000000 - 7 * 86400) = group_buys one_pending_db
   \<and> get_product one_pending_db 1 \<noteq> None
   \<and> (\<exists>d1. check_expired_groups one_pending_db 1000000 =
               Inr (Expired_groups 1 No_incomplete_groups, d1)
          \<and> map (\<lambda>g. (g_id g, is_active g, g_updated_at g)) (group_buys d1) = [(1, False, 1000000)]
          \<and> map (\<lambda>r. (o_id r, group_buy_id r, status r)) (orders d1) = [(1, 1, CANCELLED)])
   \<and> get_expired_groups one_pending_db (5 - 7 * 86400) = []
   \<and> check_expired_groups one_pending_db 5 = Inr (No_expired_groups, one_pending_db)"
proof -
  have dist: "distinct (map o_id (orders one_pending_db))"
    by (simp add: one_pending_db_def)
  have ex: "get_expired_groups one_pending_db (1000000 - 7 * 86400) = group_buys one_pending_db"
    by (simp add: get_expired_groups_def one_pending_db_def)
  have ex5: "get_expired_groups one_pending_db (5 - 7 * 86400) = []"
    by (simp add: get_expired_groups_def one_pending_db_def)
  have prod: "get_product one_pending_db 1 \<noteq> None"
    by (simp add: get_product_def one_pending_db_def example_product_def)
  have named: "\<forall>g\<in>set (get_expired_groups one_pending_db (now - 7 * 86400)).
      get_orders_by_group one_pending_db (g_id g) \<noteq> [] \<longrightarrow>
      get_product one_pending_db (g_product_id g) \<noteq> None" for now
    using prod by (auto simp: get_expired_groups_def one_pending_db_def)
  have ne: "get_expired_groups one_pending_db (1000000 - 7 * 86400) \<noteq> []"
    unfolding ex by (simp add: one_pending_db_def)
  from check_expired_groups_sweeps [OF dist named, of 1000000] ne
  obtain d1 where g: "group_buys d1 =
        map (\<lambda>g. if g_id g \<in> g_id ` set (get_expired_groups one_pending_db (1000000 - 7 * 86400))
                  then g\<lparr> is_active := False, g_updated_at := 1000000 \<rparr> else g)
          (group_buys one_pending_db)"
    and o: "orders d1 =
        map (\<lambda>r. if group_buy_id r \<in> g_id ` set (get_expired_groups one_pending_db (1000000 - 7 * 86400))
                  then r\<lparr> status := CANCELLED \<rparr> else r) (orders one_pending_db)"
    and c: "check_expired_groups one_pending_db 1000000 =
                  (case rearrange_incomplete_groups d1 1000000 of
                     Inl e \<Rightarrow> Inl e
                   | Inr (res, d2) \<Rightarrow>
                       Inr (Expired_groups
                              (int (length (get_expired_groups one_pending_db (1000000 - 7 * 86400)))) res,
                            d2))"
    by blast
  have g': "map (\<lambda>g. (g_id g, is_active g, g_updated_at g)) (group_buys d1) = [(1, False, 1000000)]"
    unfolding g ex by (simp add: one_pending_db_def)
  have o': "map (\<lambda>r. (o_id r, group_buy_id r, status r)) (orders d1) = [(1, 1, CANCELLED)]"
    unfolding o ex by (simp add: one_pending_db_def)
  have "get_incomplete_groups d1 = []"
    unfolding get_incomplete_groups_def g ex by (simp add: one_pending_db_def)
  then have "rearrange_incomplete_groups d1 1000000 = Inr (No_incomplete_groups, d1)"
    by (simp add: rearrange_incomplete_groups_def)
  with c have c': "check_expired_groups one_pending_db 1000000 =
               Inr (Expired_groups 1 No_incomplete_groups, d1)"
    unfolding ex by (simp add: one_pending_db_def)
  have c5: "check_expired_groups one_pending_db 5 = Inr (No_expired_groups, one_pending_db)"
    using check_expired_groups_sweeps [OF dist named, of 5] ex5 by blast
  show ?thesis
    by (intro conjI exI [of _ d1]) (fact dist ex prod c' g' o' ex5 c5)+
qed

section \<open>At most one active group per product\<close>

lemma distinct_active_map:
  assumes "distinct (map p (filter a xs))"
    and "\<And>x. p (f x) = p x" and "\<And>x. a (f x) \<Longrightarrow> a x"
  shows "distinct (map p (filter a (map f xs)))"
  using assms(1)
proof (induction xs)
  case Nil
  then show ?case by simp
next
  case (Cons x xs)
  show ?case
  proof (cases "a (f x)")
    case True
    then have ax: "a x" by (rule assms(3))
    with Cons.prems have notin: "p x \<notin> p ` set (filter a xs)" and d: "distinct (map p (filter a xs))"
      by simp_all
    have "p (f x) \<notin> p ` set (filter a (map f xs))"
    proof
      assume "p (f x) \<in> p ` set (filter a (map f xs))"
      then obtain y where "y \<in> set xs" "a (f y)" "p (f y) = p (f x)" by auto
      then have "y \<in> set (filter a xs)" "p y = p x" using assms(2,3) by auto
      then have "p x \<in> p ` set (filter a xs)" by (metis imageI)
      with notin show False by simp
    qed
    with True Cons.IH [OF d] show ?thesis by simp
  next
    case False
    have "distinct (map p (filter a xs))" using Cons.prems by (cases "a x") simp_all
    with False Cons.IH show ?thesis by simp
  qed
qed

lemma one_active_modify_group:
  assumes "one_active_per_product d"
    and "\<And>g. g_product_id (f g) = g_product_id g" and "\<And>g. is_active (f g) \<Longrightarrow> is_active g"
  shows "one_active_per_product (modify_group now i f d)"
  unfolding one_active_per_product_def modify_group_fields
  by (rule distinct_active_map [OF assms(1) [unfolded one_active_per_product_def]])
     (auto simp: assms(2) dest: assms(3) split: if_splits)

lemma one_active_get_or_create:
  assumes "one_active_per_product d" "get_or_create_active_group_buy d now pid = Inr (g, d1)"
  shows "one_active_per_product d1"
proof -
  from get_or_create_Inr(7) [OF assms(2)] show ?thesis
  proof
    assume "group_buys d1 = group_buys d"
    with assms(1) show ?thesis by (simp add: one_active_per_product_def)
  next
    assume h: "group_buys d1 = group_buys d @ [g] \<and> g_id g = next_id (map g_id (group_buys d))
        \<and> get_active_group_buy d pid = None \<and> current_count g = 0
        \<and> (\<exists>p. get_product d pid = Some p \<and> target_count g = min_group_size p)"
    then have eq: "group_buys d1 = group_buys d @ [g]" and none: "get_active_group_buy d pid = None"
      by blast+
    from none have "\<forall>x\<in>set (group_buys d). \<not> (g_product_id x = pid \<and> is_active x)"
      by (simp add: get_active_group_buy_def find_None_all)
    then have notin: "pid \<notin> g_product_id ` set (filter is_active (group_buys d))" by auto
    have gp: "g_product_id g = pid" by (rule get_or_create_Inr(5) [OF assms(2)])
    have "distinct (map g_product_id (filter is_active (group_buys d) @ [g]))"
      using assms(1) notin gp by (simp add: one_active_per_product_def)
    then show ?thesis
      unfolding one_active_per_product_def eq
      using get_or_create_Inr(6) [OF assms(2)] by simp
  qed
qed

lemma create_order_fields [simp]:
  "products (snd (create_order d now b gid q u dep)) = products d"
  "group_buys (snd (create_order d now b gid q u dep)) = group_buys d"
  by (simp_all add: create_order_def Let_def)

lemma join_group_groups:
  assumes "join_group d now buyer pid = Inr (res, d')"
  shows "\<exists>g d1. get_or_create_active_group_buy d now pid = Inr (g, d1)
           \<and> group_buys d' = group_buys d1 \<and> products d' = products d"
proof -
  from assms join_group_fails_iff [of d now buyer pid] obtain p where p: "get_product d pid = Some p"
    by (cases "get_product d pid") auto
  from get_or_create_total [OF p] obtain g d1
    where goc: "get_or_create_active_group_buy d now pid = Inr (g, d1)" by blast
  from join_group_eq [OF p goc, of buyer] assms
  have "d' = send_message (Msg_join_ack buyer (price p * 0.1) (current_count g + 1) (target_count g))
                  (snd (create_order d1 now buyer (g_id g) 1 (price p) (price p * 0.1)))"
    by simp
  then have "group_buys d' = group_buys d1" "products d' = products d1"
    by (simp_all only: send_message_fields create_order_fields)
  with goc get_or_create_Inr(1) [OF goc] show ?thesis by simp
qed

lemma one_active_join_group:
  assumes "one_active_per_product d" "join_group d now buyer pid = Inr (res, d')"
  shows "one_active_per_product d'"
proof -
  from join_group_groups [OF assms(2)] obtain g d1
    where goc: "get_or_create_active_group_buy d now pid = Inr (g, d1)"
      and eq: "group_buys d' = group_buys d1" by blast
  from one_active_get_or_create [OF assms(1) goc] show ?thesis
    unfolding one_active_per_product_def eq .
qed

lemma one_active_process_new_order:
  assumes "one_active_per_product d" "process_new_order d now oid = Inr (res, d')"
  shows "one_active_per_product d'"
proof (cases "get_order d oid")
  case None
  with assms show ?thesis by (simp add: process_new_order_def)
next
  case (Some ord)
  then obtain g where g: "get_group_buy d (group_buy_id ord) = Some g"
    using assms(2) by (cases "get_group_buy d (group_buy_id ord)") (simp_all add: process_new_order_def)
  then obtain p where p: "get_product d (g_product_id g) = Some p"
    using assms(2) Some
    by (cases "get_product d (g_product_id g)")
      (simp_all add: process_new_order_def Let_def split: if_splits)
  let ?d1 = "modify_group now (g_id g) (\<lambda>g'. g'\<lparr> current_count := current_count g + 1 \<rparr>) d"
  have i1: "one_active_per_product ?d1"
    by (rule one_active_modify_group [OF assms(1)]) simp_all
  show ?thesis
  proof (cases "target_count g \<le> current_count g + 1")
    case True
    let ?d2 = "modify_group now (g_id g) (\<lambda>g'. g'\<lparr> is_active := False \<rparr>) ?d1"
    have i2: "one_active_per_product ?d2"
      by (rule one_active_modify_group [OF i1]) simp_all
    have "process_new_order d now oid =
            Inr (Group_buy_completed (g_id g) (get_discount_percentage p (current_count g + 1)),
                 fold (finalize_order (current_count g + 1) (get_discount_percentage p (current_count g + 1)))
                   (get_orders_by_group ?d2 (g_id g)) ?d2)"
      using True Some g p by (simp add: process_new_order_def Let_def)
    with assms(2) have "d' = fold (finalize_order (current_count g + 1)
                   (get_discount_percentage p (current_count g + 1)))
                   (get_orders_by_group ?d2 (g_id g)) ?d2"
      by simp
    then have eq: "group_buys d' = group_buys ?d2"
      by (simp only: fold_finalize_fields)
    from i2 show ?thesis
      unfolding one_active_per_product_def eq .
  next
    case False
    have "process_new_order d now oid =
            Inr (Added_to_group_buy (g_id g) (current_count g + 1) (target_count g),
                 send_message (Msg_joined (buyer_id ord) (current_count g + 1) (target_count g)) ?d1)"
      using False Some g p by (simp add: process_new_order_def Let_def)
    with assms(2) have "d' = send_message (Msg_joined (buyer_id ord) (current_count g + 1) (target_count g)) ?d1"
      by simp
    then have eq: "group_buys d' = group_buys ?d1"
      by (simp only: send_message_fields)
    from i1 show ?thesis
      unfolding one_active_per_product_def eq .
  qed
qed

lemma one_active_join:
  assumes "one_active_per_product d" "join d now buyer pid = Inr (res, d')"
  shows "one_active_per_product d'"
proof -
  from assms(2) obtain jr d1 where j: "join_group d now buyer pid = Inr (jr, d1)"
    by (cases "join_group d now buyer pid") (auto simp: join_def)
  obtain a b c where jr: "jr = Join_group a b c" by (cases jr)
  from assms(2) j jr have "process_new_order d1 now c = Inr (res, d')" by (simp add: join_def)
  with one_active_join_group [OF assms(1) j] show ?thesis
    by (rule one_active_process_new_order)
qed

lemma complete_loop_groups:
  fixes n m :: nat
  assumes n: "min_group_size p = int n"
  shows "products (fst (fold (form_complete_group now p pid all) [0..<m] (d, results))) = products d
    \<and> group_buys (fst (fold (form_complete_group now p pid all) [0..<m] (d, results))) =
        group_buys d @
        map (\<lambda>i. \<lparr> g_id = next_id (map g_id (group_buys d)) + int i, g_product_id = pid,
                    current_count = int n, target_count = int n, is_active = False,
                    g_updated_at = now \<rparr>) [0..<m]"
proof (induction m)
  case 0
  then show ?case by simp
next
  case (Suc m)
  define S where "S = fold (form_complete_group now p pid all) [0..<m] (d, results)"
  define base where "base = next_id (map g_id (group_buys d))"
  have IH1: "products (fst S) = products d"
    and IH2: "group_buys (fst S) = group_buys d @
        map (\<lambda>i. \<lparr> g_id = base + int i, g_product_id = pid,
                    current_count = int n, target_count = int n, is_active = False,
                    g_updated_at = now \<rparr>) [0..<m]"
    using Suc.IH unfolding S_def base_def by simp_all
  have step: "fold (form_complete_group now p pid all) [0..<Suc m] (d, results) =
              form_complete_group now p pid all m (fst S, snd S)"
    by (simp add: S_def)
  have key: "next_id (map g_id (group_buys (fst S))) = base + int m"
    using next_id_run [of "map g_id (group_buys d)" m]
    by (simp add: IH2 base_def comp_def)
  note raw = form_complete_group_fields(1,2) [OF n, of now pid all m "fst S" "snd S", unfolded key]
  show ?case
    unfolding step using raw IH1 IH2 by (simp add: base_def)
qed

text \<open>The groups after the body of the loop has run for one product.\<close>

lemma rearrange_product_groups:
  assumes "rearrange_product now (pid, groups) (d, results) = Inr (d', results')"
  shows "products d' = products d \<and>
     (group_buys d' = group_buys d \<or>
      (\<exists>n. group_buys d' =
         map (\<lambda>g. if g_id g \<in> g_id ` set groups
                   then g\<lparr> is_active := False, g_updated_at := now \<rparr> else g)
           (group_buys d @ spec_new_groups now pid n (length (collect_orders d groups))
                              (next_id (map g_id (group_buys d))))))"
proof -
  from assms obtain p where prod: "get_product d pid = Some p"
    by (cases "get_product d pid") (simp_all add: rearrange_product_def)
  from assms prod have nz: "min_group_size p \<noteq> 0"
    by (auto simp: rearrange_product_def Let_def split: if_splits)
  let ?all = "collect_orders d groups"
  show ?thesis
  proof (cases "0 < int (length ?all) div min_group_size p")
    case False
    with assms prod nz have "d' = d" by (simp add: rearrange_product_def Let_def)
    then show ?thesis by simp
  next
    case True
    have mpos: "0 < min_group_size p"
    proof (rule ccontr)
      assume "\<not> 0 < min_group_size p"
      with nz have "min_group_size p < 0" by simp
      then have "int (length ?all) div min_group_size p \<le> 0"
        by (intro div_nonneg_neg_le0) simp_all
      with True show False by simp
    qed
    define n where "n = nat (min_group_size p)"
    have n: "min_group_size p = int n" "0 < n" using mpos by (simp_all add: n_def)
    have enough: "n \<le> length ?all"
      using True mpos pos_imp_zdiv_pos_iff [of "min_group_size p" "int (length ?all)"]
      by (simp add: n_def)
    define M where "M = length ?all div n"
    define R where "R = length ?all mod n"
    define S1 where "S1 = fold (form_complete_group now p pid ?all) [0 ..< M] (d, results)"
    define S2 where "S2 = (if R > 0 then form_remaining_group now p pid ?all (int M) (int R) S1 else S1)"
    define base where "base = next_id (map g_id (group_buys d))"
    have res: "rearrange_product now (pid, groups) (d, results) =
               Inr (close_groups now groups (fst S2), snd S2)"
      using rearrange_product_unfold [OF prod n enough, of now results]
      by (simp add: Let_def S2_def S1_def M_def R_def)
    have l: "products (fst S1) = products d"
      "group_buys (fst S1) = group_buys d @
        map (\<lambda>i. \<lparr> g_id = base + int i, g_product_id = pid,
                    current_count = int n, target_count = int n, is_active = False,
                    g_updated_at = now \<rparr>) [0..<M]"
      using complete_loop_groups [OF n(1), of now pid ?all M d results]
      unfolding S1_def base_def by simp_all
    have key: "next_id (map g_id (group_buys (fst S1))) = base + int M"
      using next_id_run [of "map g_id (group_buys d)" M]
      by (simp add: l(2) base_def comp_def)
    note rem = form_remaining_group_fields(1,2) [OF n(1), of now pid ?all M R "fst S1" "snd S1",
        unfolded key prod.collapse]
    have p2: "products (fst S2) = products d"
      using rem(1) l(1) by (simp add: S2_def)
    have g2: "group_buys (fst S2) = group_buys d @ spec_new_groups now pid n (length ?all) base"
    proof (cases "R > 0")
      case True
      then have "S2 = form_remaining_group now p pid ?all (int M) (int R) S1" by (simp add: S2_def)
      then show ?thesis
        using rem(2) True by (simp add: l(2) spec_new_groups_def M_def R_def)
    next
      case False
      then show ?thesis by (simp add: S2_def l(2) spec_new_groups_def M_def R_def)
    qed
    from assms res have "d' = close_groups now groups (fst S2)" by simp
    then have "products d' = products d"
      and "group_buys d' =
         map (\<lambda>g. if g_id g \<in> g_id ` set groups
                   then g\<lparr> is_active := False, g_updated_at := now \<rparr> else g)
           (group_buys d @ spec_new_groups now pid n (length ?all) base)"
      by (simp_all add: close_groups_fields p2 g2)
    then show ?thesis unfolding base_def by blast
  qed
qed

lemma spec_new_groups_active:
  "filter is_active (spec_new_groups now pid n t base) = [] \<or>
   (\<exists>g. filter is_active (spec_new_groups now pid n t base) = [g])"
  by (simp add: spec_new_groups_def filter_empty_conv)

text \<open>
  An entry of the dictionary covers its product when every active group of the product
  is among the entry's groups.
\<close>

lemma one_active_rearrange_product:
  assumes inv: "one_active_per_product d"
    and cover: "\<forall>g\<in>set (group_buys d). is_active g \<and> g_product_id g = pid \<longrightarrow> g_id g \<in> g_id ` set groups"
    and res: "rearrange_product now (pid, groups) (d, results) = Inr (d', results')"
  shows "one_active_per_product d'"
proof -
  define close where "close = (\<lambda>g::group_buy. if g_id g \<in> g_id ` set groups
                   then g\<lparr> is_active := False, g_updated_at := now \<rparr> else g)"
  from rearrange_product_groups [OF res]
  consider "group_buys d' = group_buys d"
    | n where "group_buys d' = map close (group_buys d @ spec_new_groups now pid n
          (length (collect_orders d groups)) (next_id (map g_id (group_buys d))))"
    unfolding close_def by blast
  then show ?thesis
  proof cases
    case 1
    with inv show ?thesis by (simp add: one_active_per_product_def)
  next
    case 2
    define news where "news = spec_new_groups now pid n
          (length (collect_orders d groups)) (next_id (map g_id (group_buys d)))"
    have cp: "\<And>g. g_product_id (close g) = g_product_id g" by (simp add: close_def)
    have ca: "\<And>g. is_active (close g) \<Longrightarrow> is_active g" by (simp add: close_def split: if_splits)
    have old: "distinct (map g_product_id (filter is_active (map close (group_buys d))))"
      by (rule distinct_active_map [OF inv [unfolded one_active_per_product_def] cp ca])
    have oldpid: "pid \<notin> g_product_id ` set (filter is_active (map close (group_buys d)))"
    proof
      assume "pid \<in> g_product_id ` set (filter is_active (map close (group_buys d)))"
      then obtain g where g: "g \<in> set (group_buys d)" "is_active (close g)" "g_product_id (close g) = pid"
        by auto
      then have "is_active g" "g_product_id g = pid" using ca cp by auto
      with cover g(1) have "g_id g \<in> g_id ` set groups" by blast
      then have "\<not> is_active (close g)" by (simp add: close_def)
      with g(2) show False by simp
    qed
    have new1: "distinct (map g_product_id (filter is_active (map close news)))"
    proof -
      from spec_new_groups_active [of now pid n "length (collect_orders d groups)"
          "next_id (map g_id (group_buys d))"]
      have "length (filter is_active news) \<le> 1" unfolding news_def by auto
      moreover have "length (filter is_active (map close news)) \<le> length (filter is_active news)"
      proof (induction news)
        case Nil
        then show ?case by simp
      next
        case (Cons a as)
        then show ?case using ca [of a] by auto
      qed
      ultimately have "length (filter is_active (map close news)) \<le> 1" by simp
      then show ?thesis
        by (cases "filter is_active (map close news)") simp_all
    qed
    have newpid: "g_product_id ` set (filter is_active (map close news)) \<subseteq> {pid}"
      using spec_new_groups_product [of _ now pid n] cp unfolding news_def by auto
    have "distinct (map g_product_id (filter is_active (map close (group_buys d)))
                    @ map g_product_id (filter is_active (map close news)))"
      using old new1 oldpid newpid by auto
    then show ?thesis
      unfolding one_active_per_product_def 2 news_def [symmetric] by simp
  qed
qed

lemma cover_after_other_product:
  assumes res: "rearrange_product now (pid, groups) (d, results) = Inr (d', results')"
    and other: "pid2 \<noteq> pid"
    and cover: "\<forall>g\<in>set (group_buys d). is_active g \<and> g_product_id g = pid2 \<longrightarrow> g_id g \<in> g_id ` set groups2"
  shows "\<forall>g\<in>set (group_buys d'). is_active g \<and> g_product_id g = pid2 \<longrightarrow> g_id g \<in> g_id ` set groups2"
proof -
  define close where "close = (\<lambda>g::group_buy. if g_id g \<in> g_id ` set groups
                   then g\<lparr> is_active := False, g_updated_at := now \<rparr> else g)"
  from rearrange_product_groups [OF res]
  consider "group_buys d' = group_buys d"
    | n where "group_buys d' = map close (group_buys d @ spec_new_groups now pid n
          (length (collect_orders d groups)) (next_id (map g_id (group_buys d))))"
    unfolding close_def by blast
  then show ?thesis
  proof cases
    case 1
    with cover show ?thesis by simp
  next
    case 2
    show ?thesis
    proof (intro ballI impI)
      fix g assume g: "g \<in> set (group_buys d')" and a: "is_active g \<and> g_product_id g = pid2"
      from g 2 obtain g0 where g0: "g = close g0"
        "g0 \<in> set (group_buys d) \<or> g0 \<in> set (spec_new_groups now pid n
          (length (collect_orders d groups)) (next_id (map g_id (group_buys d))))"
        by auto
      have same: "g_product_id g = g_product_id g0" "g_id g = g_id g0" "is_active g \<longrightarrow> is_active g0"
        by (simp_all add: g0(1) close_def)
      from g0(2) show "g_id g \<in> g_id ` set groups2"
      proof
        assume "g0 \<in> set (group_buys d)"
        with cover a same show "g_id g \<in> g_id ` set groups2" by auto
      next
        assume "g0 \<in> set (spec_new_groups now pid n
          (length (collect_orders d groups)) (next_id (map g_id (group_buys d))))"
        then have "g_product_id g0 = pid" by (rule spec_new_groups_product)
        with a same other show "g_id g \<in> g_id ` set groups2" by simp
      qed
    qed
  qed
qed

lemma one_active_rearrange_loop:
  assumes "one_active_per_product d"
    and "distinct (map fst entries)"
    and "\<forall>(pid, groups)\<in>set entries.
           \<forall>g\<in>set (group_buys d). is_active g \<and> g_product_id g = pid \<longrightarrow> g_id g \<in> g_id ` set groups"
    and "fold_err (rearrange_product now) entries (d, results) = Inr (d', results')"
  shows "one_active_per_product d'"
  using assms
proof (induction entries arbitrary: d results)
  case Nil
  then show ?case by simp
next
  case (Cons e entries)
  obtain pid groups where e: "e = (pid, groups)" by (cases e)
  from Cons.prems(4) obtain d1 r1 where
    s1: "rearrange_product now (pid, groups) (d, results) = Inr (d1, r1)"
    and rest: "fold_err (rearrange_product now) entries (d1, r1) = Inr (d', results')"
    by (cases "rearrange_product now e (d, results)") (auto simp: e)
  have c0: "\<forall>g\<in>set (group_buys d). is_active g \<and> g_product_id g = pid \<longrightarrow> g_id g \<in> g_id ` set groups"
    using Cons.prems(3) by (simp add: e)
  have i1: "one_active_per_product d1"
    by (rule one_active_rearrange_product [OF Cons.prems(1) c0 s1])
  have d1: "distinct (map fst entries)" using Cons.prems(2) by simp
  have c1: "\<forall>(pid2, groups2)\<in>set entries.
           \<forall>g\<in>set (group_buys d1). is_active g \<and> g_product_id g = pid2 \<longrightarrow> g_id g \<in> g_id ` set groups2"
  proof (rule ballI)
    fix x assume xm: "x \<in> set entries"
    obtain pid2 groups2 where x: "x = (pid2, groups2)" by (cases x)
    from xm x Cons.prems(2) have ne: "pid2 \<noteq> pid" by (auto simp: e image_iff)
    from xm x Cons.prems(3) have
      "\<forall>g\<in>set (group_buys d). is_active g \<and> g_product_id g = pid2 \<longrightarrow> g_id g \<in> g_id ` set groups2"
      by auto
    from cover_after_other_product [OF s1 ne this]
    show "case x of (pid2, groups2) \<Rightarrow>
           \<forall>g\<in>set (group_buys d1). is_active g \<and> g_product_id g = pid2 \<longrightarrow> g_id g \<in> g_id ` set groups2"
      unfolding x by simp
  qed
  show ?case by (rule Cons.IH [OF i1 d1 c1 rest])
qed

lemma one_active_rearrange:
  assumes inv: "one_active_per_product d"
    and res: "rearrange_incomplete_groups d now = Inr (r, d')"
  shows "one_active_per_product d'"
proof (cases "get_incomplete_groups d = []")
  case True
  with res have "d' = d" by (simp add: rearrange_incomplete_groups_def)
  with inv show ?thesis by simp
next
  case False
  let ?entries = "product_groups (get_incomplete_groups d)"
  from res False obtain results' where
    f: "fold_err (rearrange_product now) ?entries (d, []) = Inr (d', results')"
    by (cases "fold_err (rearrange_product now) ?entries (d, [])")
      (auto simp: rearrange_incomplete_groups_def Let_def)
  have cover: "\<forall>(pid, groups)\<in>set ?entries.
           \<forall>g\<in>set (group_buys d). is_active g \<and> g_product_id g = pid \<longrightarrow> g_id g \<in> g_id ` set groups"
  proof (rule ballI)
    fix x assume xm: "x \<in> set ?entries"
    obtain pid groups where x: "x = (pid, groups)" by (cases x)
    from xm x have m: "(pid, groups) \<in> set ?entries" by simp
    note pe = product_groups_entry [OF m]
    from pe(2) obtain g0 where g0in: "g0 \<in> set groups" by (cases groups) auto
    with pe(1) have g0: "g0 \<in> set (get_incomplete_groups d)" "g_product_id g0 = pid" by auto
    then have g0a: "g0 \<in> set (filter is_active (group_buys d))"
      by (simp add: get_incomplete_groups_def)
    have inj: "inj_on g_product_id (set (filter is_active (group_buys d)))"
      using inv by (simp add: one_active_per_product_def distinct_map)
    have "g_id g \<in> g_id ` set groups"
      if g: "g \<in> set (group_buys d)" and a: "is_active g" and pg: "g_product_id g = pid" for g
    proof -
      from g a have "g \<in> set (filter is_active (group_buys d))" by simp
      with g0a inj g0(2) pg have "g = g0" by (auto dest: inj_onD)
      with g0in show ?thesis by simp
    qed
    then show "case x of (pid, groups) \<Rightarrow>
           \<forall>g\<in>set (group_buys d). is_active g \<and> g_product_id g = pid \<longrightarrow> g_id g \<in> g_id ` set groups"
      unfolding x by simp
  qed
  show ?thesis
    by (rule one_active_rearrange_loop [OF inv product_groups_distinct cover f])
qed

lemma expire_group_groups:
  assumes "expire_group now g d = Inr d'"
  shows "group_buys d' =
     map (\<lambda>g'. if g_id g' = g_id g then g'\<lparr> is_active := False, g_updated_at := now \<rparr> else g')
       (group_buys d)"
  using assms by (auto simp: expire_group_def Let_def fold_cancel_fields split: if_splits)

lemma one_active_expire:
  assumes "one_active_per_product d" "fold_err (expire_group now) gs d = Inr d'"
  shows "one_active_per_product d'"
  using assms
proof (induction gs arbitrary: d)
  case Nil
  then show ?case by simp
next
  case (Cons g gs)
  from Cons.prems(2) obtain d1 where e: "expire_group now g d = Inr d1"
    and rest: "fold_err (expire_group now) gs d1 = Inr d'"
    by (cases "expire_group now g d") auto
  have "one_active_per_product d1"
    unfolding one_active_per_product_def expire_group_groups [OF e]
    by (rule distinct_active_map [OF Cons.prems(1) [unfolded one_active_per_product_def]])
       (simp_all split: if_splits)
  then show ?case using rest by (rule Cons.IH)
qed

lemma one_active_sweep:
  assumes inv: "one_active_per_product d"
    and res: "check_expired_groups d now = Inr (r, d')"
  shows "one_active_per_product d'"
proof (cases "get_expired_groups d (now - expiration_days * 86400) = []")
  case True
  with res have "d' = d" by (simp add: check_expired_groups_def Let_def)
  with inv show ?thesis by simp
next
  case False
  from res False obtain d1 where
    e: "fold_err (expire_group now) (get_expired_groups d (now - expiration_days * 86400)) d = Inr d1"
    by (cases "fold_err (expire_group now) (get_expired_groups d (now - expiration_days * 86400)) d")
      (auto simp: check_expired_groups_def Let_def)
  from res False e obtain r1 where rr: "rearrange_incomplete_groups d1 now = Inr (r1, d')"
    by (cases "rearrange_incomplete_groups d1 now")
      (auto simp: check_expired_groups_def Let_def)
  from one_active_expire [OF inv e] rr show ?thesis by (rule one_active_rearrange)
qed

lemma one_active_step:
  assumes "one_active_per_product d" "step tick d = Inr d'"
  shows "one_active_per_product d'"
proof -
  obtain now operation where t: "tick = (now, operation)" by (cases tick)
  show ?thesis
  proof (cases operation)
    case (Get_or_create pid)
    with assms(2) t obtain g where "get_or_create_active_group_buy d now pid = Inr (g, d')"
      by (cases "get_or_create_active_group_buy d now pid") (auto simp: step_def)
    with assms(1) show ?thesis by (rule one_active_get_or_create)
  next
    case (Click_join buyer pid)
    with assms(2) t obtain r where "join_group d now buyer pid = Inr (r, d')"
      by (cases "join_group d now buyer pid") (auto simp: step_def)
    with assms(1) show ?thesis by (rule one_active_join_group)
  next
    case (Pay_deposit oid)
    with assms(2) t obtain r where "process_new_order d now oid = Inr (r, d')"
      by (cases "process_new_order d now oid") (auto simp: step_def)
    with assms(1) show ?thesis by (rule one_active_process_new_order)
  next
    case (Join buyer pid)
    with assms(2) t obtain r where "join d now buyer pid = Inr (r, d')"
      by (cases "join d now buyer pid") (auto simp: step_def)
    with assms(1) show ?thesis by (rule one_active_join)
  next
    case Rearrange
    with assms(2) t obtain r where "rearrange_incomplete_groups d now = Inr (r, d')"
      by (cases "rearrange_incomplete_groups d now") (auto simp: step_def)
    with assms(1) show ?thesis by (rule one_active_rearrange)
  next
    case Sweep
    with assms(2) t obtain r where "check_expired_groups d now = Inr (r, d')"
      by (cases "check_expired_groups d now") (auto simp: step_def)
    with assms(1) show ?thesis by (rule one_active_sweep)
  qed
qed

lemma one_active_run:
  assumes "one_active_per_product d" "run ticks d = Inr d'"
  shows "one_active_per_product d'"
  using assms unfolding run_def
proof (induction ticks arbitrary: d)
  case Nil
  then show ?case by simp
next
  case (Cons t ticks)
  from Cons.prems(2) obtain d1 where s: "step t d = Inr d1" and r: "fold_err step ticks d1 = Inr d'"
    by (cases "step t d") auto
  from one_active_step [OF Cons.prems(1) s] r show ?case by (rule Cons.IH)
qed

lemma distinct_key_filter_le1:
  "distinct (map f xs) \<Longrightarrow> length (filter (\<lambda>x. f x = k) xs) \<le> 1"
proof (induction xs)
  case Nil
  then show ?case by simp
next
  case (Cons x xs)
  show ?case
  proof (cases "f x = k")
    case True
    with Cons.prems have "\<forall>y\<in>set xs. f y \<noteq> k" by (auto simp: image_iff)
    then have "filter (\<lambda>x. f x = k) xs = []" by (simp add: filter_empty_conv)
    with True show ?thesis by simp
  next
    case False
    with Cons show ?thesis by simp
  qed
qed

text \<open>
  C6. The active groups of a store have pairwise distinct products (so each product has
  at most one) after every operation that returns: looking up or creating the active
  group, the two halves of a join on their own, a whole join, a rearrangement and a
  sweep all preserve it, and it holds of a store without groups.
  \<open>get_or_create_active_group_buy\<close> returns the existing active group and leaves the
  store alone when there is one, and otherwise appends one new group with
  \<open>target_count = min_group_size\<close>, \<open>current_count = 0\<close>, active. Operations run one
  after the other.
\<close>

theorem at_most_one_active_group:
  "(one_active_per_product d \<and> run ticks d = Inr d' \<longrightarrow> one_active_per_product d')
   \<and> (group_buys d = [] \<longrightarrow> one_active_per_product d)
   \<and> (one_active_per_product d \<longrightarrow>
        length (filter (\<lambda>g. g_product_id g = pid \<and> is_active g) (group_buys d)) \<le> 1)
   \<and> (get_active_group_buy d pid = Some g \<longrightarrow>
        get_or_create_active_group_buy d now pid = Inr (g, d))
   \<and> (get_active_group_buy d pid = None \<and> get_product d pid = Some p \<longrightarrow>
        get_or_create_active_group_buy d now pid =
          Inr (\<lparr> g_id = next_id (map g_id (group_buys d)), g_product_id = pid, current_count = 0,
                 target_count = min_group_size p, is_active = True, g_updated_at = now \<rparr>,
               d\<lparr> group_buys := group_buys d @
                    [\<lparr> g_id = next_id (map g_id (group_buys d)), g_product_id = pid,
                       current_count = 0, target_count = min_group_size p, is_active = True,
                       g_updated_at = now \<rparr>] \<rparr>))"
proof (intro conjI impI)
  assume "one_active_per_product d \<and> run ticks d = Inr d'"
  then show "one_active_per_product d'" using one_active_run by blast
next
  assume "group_buys d = []"
  then show "one_active_per_product d" by (simp add: one_active_per_product_def)
next
  assume "one_active_per_product d"
  then have "length (filter (\<lambda>g. g_product_id g = pid) (filter is_active (group_buys d))) \<le> 1"
    unfolding one_active_per_product_def by (rule distinct_key_filter_le1)
  then show "length (filter (\<lambda>g. g_product_id g = pid \<and> is_active g) (group_buys d)) \<le> 1"
    by (simp add: conj_commute)
next
  assume "get_active_group_buy d pid = Some g"
  then show "get_or_create_active_group_buy d now pid = Inr (g, d)"
    by (rule get_or_create_existing)
next
  assume "get_active_group_buy d pid = None \<and> get_product d pid = Some p"
  then show "get_or_create_active_group_buy d now pid =
          Inr (\<lparr> g_id = next_id (map g_id (group_buys d)), g_product_id = pid, current_count = 0,
                 target_count = min_group_size p, is_active = True, g_updated_at = now \<rparr>,
               d\<lparr> group_buys := group_buys d @
                    [\<lparr> g_id = next_id (map g_id (group_buys d)), g_product_id = pid,
                       current_count = 0, target_count = min_group_size p, is_active = True,
                       g_updated_at = now \<rparr>] \<rparr>)"
    using get_or_create_new by blast
qed

theorem at_most_one_active_group_witness:
  "group_buys empty_db = []
   \<and> one_active_per_product empty_db
   \<and> \<not> isl (run example_ticks empty_db)
   \<and> one_active_per_product (projr (run example_ticks empty_db))
   \<and> map (\<lambda>g. (g_id g, g_product_id g, current_count g, is_active g))
        (group_buys (projr (run example_ticks empty_db))) =
        [(1, 1, 2, False), (2, 1, 1, False), (3, 1, 0, True)]
   \<and> length (filter (\<lambda>g. g_product_id g = 1 \<and> is_active g)
        (group_buys (projr (run example_ticks empty_db)))) \<le> 1
   \<and> get_active_group_buy one_pending_db 1 = Some (hd (group_buys one_pending_db))
   \<and> get_or_create_active_group_buy one_pending_db 9 1 = Inr (hd (group_buys one_pending_db), one_pending_db)
   \<and> get_active_group_buy empty_db 1 = None \<and> get_product empty_db 1 = Some example_product
   \<and> get_or_create_active_group_buy empty_db 9 1 =
        Inr (\<lparr> g_id = 1, g_product_id = 1, current_count = 0, target_count = 2, is_active = True,
               g_updated_at = 9 \<rparr>,
             empty_db\<lparr> group_buys :=
                [\<lparr> g_id = 1, g_product_id = 1, current_count = 0, target_count = 2, is_active = True,
                   g_updated_at = 9 \<rparr>] \<rparr>)"
proof -
  let ?r = "run example_ticks empty_db"
  have e: "group_buys empty_db = []" by (simp add: empty_db_def)
  have i0: "one_active_per_product empty_db"
    using at_most_one_active_group [of empty_db] e by blast
  have ok: "\<not> isl ?r" by code_simp
  then have r: "?r = Inr (projr ?r)" by simp
  have i1: "one_active_per_product (projr ?r)"
    using at_most_one_active_group [of empty_db example_ticks "projr ?r"] i0 r by blast
  have gs: "map (\<lambda>g. (g_id g, g_product_id g, current_count g, is_active g)) (group_buys (projr ?r)) =
        [(1, 1, 2, False), (2, 1, 1, False), (3, 1, 0, True)]"
    by code_simp
  have le: "length (filter (\<lambda>g. g_product_id g = 1 \<and> is_active g) (group_buys (projr ?r))) \<le> 1"
    using at_most_one_active_group [of "projr ?r" _ _ 1] i1 by blast
  have a1: "get_active_group_buy one_pending_db 1 = Some (hd (group_buys one_pending_db))"
    by (simp add: get_active_group_buy_def one_pending_db_def)
  have a2: "get_or_create_active_group_buy one_pending_db 9 1 =
              Inr (hd (group_buys one_pending_db), one_pending_db)"
    using at_most_one_active_group [of one_pending_db _ _ 1 "hd (group_buys one_pending_db)" 9] a1
    by blast
  have b1: "get_active_group_buy empty_db 1 = None" "get_product empty_db 1 = Some example_product"
    by (simp_all add: get_active_group_buy_def get_product_def empty_db_def example_product_def)
  have m: "min_group_size example_product = 2" by (simp add: example_product_def)
  have n1: "next_id (map g_id (group_buys empty_db)) = 1" by (simp add: e next_id_def)
  have b2: "get_or_create_active_group_buy empty_db 9 1 =
        Inr (\<lparr> g_id = 1, g_product_id = 1, current_count = 0, target_count = 2, is_active = True,
               g_updated_at = 9 \<rparr>,
             empty_db\<lparr> group_buys :=
                [\<lparr> g_id = 1, g_product_id = 1, current_count = 0, target_count = 2, is_active = True,
                   g_updated_at = 9 \<rparr>] \<rparr>)"
    using at_most_one_active_group [of empty_db _ _ 1 _ 9 example_product, unfolded n1 m] b1
    by (simp add: e)
  show ?thesis
    by (intro conjI) (fact e i0 ok i1 gs le a1 a2 b1 b2)+
qed

end
